theory Spec2Isabelle
  imports Main "HOL-Library.Word"
begin

unbundle bit_operations_syntax

section \<open>Data model of the link layer (rcxlib/RCX\_Link.cpp)\<close>

type_synonym UByte = "8 word"
type_synonym UShort = "16 word"

text \<open>
  A \<open>const UByte *\<close> is modelled as the list of bytes that starts at the pointer and ends
  with the object pointed into; \<open>data += n\<close> is \<open>drop n\<close>.  A read through the pointer is
  \<open>peek\<close>: outside the object the C program has no defined behaviour, which the model
  renders as \<open>None\<close>.  Throughout, a result \<open>None\<close> of a modelled function means that the
  call does not return normally (undefined behaviour or a loop that does not end).
\<close>

definition peek :: "UByte list \<Rightarrow> int \<Rightarrow> UByte option" where
  "peek data k = (if 0 \<le> k \<and> k < int (length data) then Some (data ! nat k) else None)"

subsection \<open>Chunk-size adaptation: \<open>RCX_Link::AdjustChunkSize\<close>\<close>

definition nOnesDensity :: "int list" where
  "nOnesDensity = [
  0, 1, 1, 2, 1, 2, 2, 3, 1, 2, 2, 3, 2, 3, 3, 4,
  1, 2, 2, 3, 2, 3, 3, 4, 2, 3, 3, 4, 3, 4, 4, 5,
  1, 2, 2, 3, 2, 3, 3, 4, 2, 3, 3, 4, 3, 4, 4, 5,
  2, 3, 3, 4, 3, 4, 4, 5, 3, 4, 4, 5, 4, 5, 5, 6,
  1, 2, 2, 3, 2, 3, 3, 4, 2, 3, 3, 4, 3, 4, 4, 5,
  2, 3, 3, 4, 3, 4, 4, 5, 3, 4, 4, 5, 4, 5, 5, 6,
  2, 3, 3, 4, 3, 4, 4, 5, 3, 4, 4, 5, 4, 5, 5, 6,
  3, 4, 4, 5, 4, 5, 5, 6, 4, 5, 5, 6, 5, 6, 6, 7,
  1, 2, 2, 3, 2, 3, 3, 4, 2, 3, 3, 4, 3, 4, 4, 5,
  2, 3, 3, 4, 3, 4, 4, 5, 3, 4, 4, 5, 4, 5, 5, 6,
  2, 3, 3, 4, 3, 4, 4, 5, 3, 4, 4, 5, 4, 5, 5, 6,
  3, 4, 4, 5, 4, 5, 5, 6, 4, 5, 5, 6, 5, 6, 6, 7,
  2, 3, 3, 4, 3, 4, 4, 5, 3, 4, 4, 5, 4, 5, 5, 6,
  3, 4, 4, 5, 4, 5, 5, 6, 4, 5, 5, 6, 5, 6, 6, 7,
  3, 4, 4, 5, 4, 5, 5, 6, 4, 5, 5, 6, 5, 6, 6, 7,
  4, 5, 5, 6, 5, 6, 6, 7, 5, 6, 6, 7, 6, 7, 7, 8]"

text \<open>The macro \<open>#define max(x, y) ((x) > (y)) ? (x) : (y)\<close>.\<close>

definition max_macro :: "int \<Rightarrow> int \<Rightarrow> int" where
  "max_macro x y = (if x > y then x else y)"

definition kOnesPlusMinusScore :: int where
  "kOnesPlusMinusScore = 3"

text \<open>
  The inner loop of the zero scan, \<open>for (j = 0; j < fMaxZeros; ++j) if (data[i+j] != 0) break;\<close>.
  The value is \<open>j\<close> at the exit of the loop.
\<close>

function zeroRun :: "int \<Rightarrow> UByte list \<Rightarrow> int \<Rightarrow> int \<Rightarrow> int option" where
  "zeroRun maxZeros data i j =
     (if j < maxZeros then
        (case peek data (i + j) of
           None \<Rightarrow> None
         | Some q \<Rightarrow> if q \<noteq> 0 then Some j else zeroRun maxZeros data i (j + 1))
      else Some j)"
  by pat_completeness auto
termination
  by (relation "measure (\<lambda>(m, d, i, j). nat (m - j))") auto

text \<open>
  The outer loop of the zero scan, \<open>for (i = 0; i < (size - fMaxZeros); ++i)\<close>.  The value
  is \<open>size\<close> after the loop.  (The \<open>printf\<close> under \<open>fVerbose\<close> writes to the terminal only
  and is left out.)
\<close>

function zeroScan :: "int \<Rightarrow> UByte list \<Rightarrow> int \<Rightarrow> int \<Rightarrow> int option" where
  "zeroScan maxZeros data sz i =
     (if i < sz - maxZeros then
        (case peek data i of
           None \<Rightarrow> None
         | Some p \<Rightarrow>
             if p \<noteq> 0 then zeroScan maxZeros data sz (i + 1)
             else
               (case zeroRun maxZeros data i 0 of
                  None \<Rightarrow> None
                | Some j \<Rightarrow>
                    if j \<ge> maxZeros then Some (i + maxZeros)
                    else zeroScan maxZeros data sz (i + 1)))
      else Some sz)"
  by pat_completeness auto
termination
  by (relation "measure (\<lambda>(m, d, sz, i). nat (sz - m - i))") auto

text \<open>
  The inner loop of the sparse-byte scan; the state of the loop is \<open>j\<close> and \<open>nLotsOfOnes\<close>,
  the value is \<open>j\<close> at the exit.
\<close>

function sparseRun :: "int \<Rightarrow> UByte list \<Rightarrow> int \<Rightarrow> int \<Rightarrow> int \<Rightarrow> int option" where
  "sparseRun maxOnes data i j nLotsOfOnes =
     (if j < maxOnes then
        (case peek data (i + j) of
           None \<Rightarrow> None
         | Some aByte \<Rightarrow>
             if nOnesDensity ! unat aByte \<ge> 3 then
               (if nLotsOfOnes + 1 > kOnesPlusMinusScore then Some j
                else sparseRun maxOnes data i (j + 1) (nLotsOfOnes + 1))
             else sparseRun maxOnes data i (j + 1) (max_macro 0 (nLotsOfOnes - 2)))
      else Some j)"
  by pat_completeness auto
termination
  by (relation "measure (\<lambda>(m, d, i, j, s). nat (m - j))") auto

function sparseScan :: "int \<Rightarrow> UByte list \<Rightarrow> int \<Rightarrow> int \<Rightarrow> int option" where
  "sparseScan maxOnes data sz i =
     (if i < sz - maxOnes then
        (case peek data i of
           None \<Rightarrow> None
         | Some aByte \<Rightarrow>
             if nOnesDensity ! unat aByte \<ge> 3 then sparseScan maxOnes data sz (i + 1)
             else
               (case sparseRun maxOnes data i 0 0 of
                  None \<Rightarrow> None
                | Some j \<Rightarrow>
                    if j \<ge> maxOnes then Some (max_macro i maxOnes)
                    else sparseScan maxOnes data sz (i + 1)))
      else Some sz)"
  by pat_completeness auto
termination
  by (relation "measure (\<lambda>(m, d, sz, i). nat (sz - m - i))") auto

text \<open>
  \<open>AdjustChunkSize(n, data, bComplement)\<close>; the members \<open>fMaxZeros\<close> and \<open>fMaxOnes\<close> of
  the link are the first two arguments.
\<close>

definition AdjustChunkSize :: "int \<Rightarrow> int \<Rightarrow> int \<Rightarrow> UByte list \<Rightarrow> bool \<Rightarrow> int option" where
  "AdjustChunkSize maxZeros maxOnes n data bComplement =
     (if \<not> bComplement then
        (case zeroScan maxZeros data n 0 of
           None \<Rightarrow> None
         | Some sz \<Rightarrow> sparseScan maxOnes data sz 0)
      else Some n)"

subsection \<open>Result codes and targets\<close>

text \<open>
  Modelled from the spec: the header that declares \<open>RCX_Result\<close> is not among the
  sources.  A result is a reply length, or one of the tagged error codes of the error
  taxonomy; \<open>RCX_ERROR\<close> holds of the error codes, and \<open>kRCX_OK\<close> is the reply
  length 0.  Codes that only the transport produces are \<open>kRCX_TransportError\<close> with
  their number.
\<close>

datatype RCX_Error =
    kRCX_RequestError
  | kRCX_ReplyError
  | kRCX_MemFullError
  | kRCX_AbortError
  | kRCX_USBUnsupportedError
  | kRCX_TcpUnsupportedError
  | kRCX_PipeModeError
  | kRCX_TransportError int

type_synonym RCX_Result = "RCX_Error + nat"

definition kRCX_OK :: RCX_Result where
  "kRCX_OK = Inr 0"

definition RCX_ERROR :: "RCX_Result \<Rightarrow> bool" where
  "RCX_ERROR result = (case result of Inl e \<Rightarrow> True | Inr n \<Rightarrow> False)"

datatype RCX_TargetType =
    kRCX_RCXTarget
  | kRCX_CMTarget
  | kRCX_ScoutTarget
  | kRCX_RCX2Target
  | kRCX_SpyboticsTarget
  | kRCX_SwanTarget

subsection \<open>Commands\<close>

text \<open>
  The class \<open>RCX_Cmd\<close> is not among the sources.  A command is kept as the call that
  builds it, with the arguments the link passes; its bytes (\<open>GetBody\<close>, of length
  \<open>GetLength\<close>) are a parameter of the model, see \<open>RCX_Defs\<close> below.
\<close>

datatype RCX_ValueType = kRCX_SpybotPingCtrlType | RCX_ValueTypeCode int

datatype RCX_Value = RCX_VALUE RCX_ValueType int

datatype RCX_Cmd =
    MakePing
  | MakeUnlock
  | MakeUnlockCM
  | MakeSet RCX_Value RCX_Value
  | MakeDownload UShort "UByte list" UShort
  | Set "UByte list"

text \<open>
  The constants and declarations that the link uses and that are declared outside the
  sources at hand: the opcodes named in \<open>ExpectedReplyLength\<close> and in the firmware
  transfer, the capacities \<open>kMaxCmdLength\<close> and \<open>kMaxReplyLength\<close>, the option bit
  \<open>kVerboseMode\<close>, the default timeout of \<open>Send\<close>, \<open>RCX_PipeTransport::kMaxTimeout\<close>,
  and the bytes of a command.  Every definition below takes them as the parameter \<open>d\<close>.
\<close>

record RCX_Defs =
  kRCX_BeginTaskOp :: int
  kRCX_BeginSubOp :: int
  kRCX_DownloadOp :: int
  kRCX_BeginFirmwareOp :: int
  kRCX_BatteryLevelOp :: int
  kRCX_ReadOp :: int
  kRCX_GetVersions :: int
  kRCX_UploadEepromOp :: int
  kRCX_UnlockOp :: int
  kRCX_GetMemMap :: int
  kRCX_PollMemoryOp :: int
  kRCX_UploadDatalogOp :: int
  kRCX_Message :: int
  kRCX_Remote :: int
  kRCX_DeleteFirmware :: int
  kMaxCmdLength :: int
  kMaxReplyLength :: int
  kVerboseMode :: "32 word"
  kDefaultTimeout :: int
  kMaxTimeout :: int
  GetBody :: "RCX_Cmd \<Rightarrow> UByte list"

definition GetLength :: "RCX_Defs \<Rightarrow> RCX_Cmd \<Rightarrow> int" where
  "GetLength d cmd = int (length (GetBody d cmd))"

subsection \<open>The transport\<close>

text \<open>
  Modelled from the spec: the transport classes are not among the sources
  (rcxlib/RCX\_Transport.cpp holds a debugging dump only).  The transport contract of the
  spec is \<open>open\<close>, \<open>close\<close>, \<open>send\<close>, \<open>setOmitHeader\<close> and the fast-mode and complement
  flags.  What the brick answers is not determined by the link: \<open>tOracle t k rq\<close> is the
  outcome (result and reply bytes) of the exchange number \<open>k\<close> for the request \<open>rq\<close>,
  and \<open>tOpenResult\<close> the outcome of \<open>open\<close>.  \<open>tSent\<close> records, in order, the requests
  handed to \<open>send\<close>: it is the wire traffic of the transport.
\<close>

datatype PipeKind = USBTowerPipe | TcpPipe | SerialPipe

record TxRequest =
  rqCmd :: RCX_Cmd
  rqLength :: int
  rqExpected :: int
  rqRetry :: bool
  rqTimeout :: int

record RCX_Transport =
  tPipe :: PipeKind
  tOpenResult :: RCX_Result
  tOracle :: "nat \<Rightarrow> TxRequest \<Rightarrow> RCX_Result \<times> UByte list"
  tSent :: "TxRequest list"
  tOmitHeader :: bool
  tDevName :: "string option"
  tFastMode :: bool
  tComplementData :: bool

definition Transport_Send ::
  "RCX_Transport \<Rightarrow> TxRequest \<Rightarrow> RCX_Result \<times> UByte list \<times> RCX_Transport" where
  "Transport_Send t rq =
     (case tOracle t (length (tSent t)) rq of
        (result, reply) \<Rightarrow> (result, reply, t\<lparr>tSent := tSent t @ [rq]\<rparr>))"

definition Transport_Open ::
  "RCX_Transport \<Rightarrow> RCX_TargetType \<Rightarrow> string option \<Rightarrow> 32 word \<Rightarrow> RCX_Result \<times> RCX_Transport" where
  "Transport_Open t target devName options = (tOpenResult t, t\<lparr>tDevName := devName\<rparr>)"

subsection \<open>The link\<close>

text \<open>
  The members of \<open>RCX_Link\<close> that the modelled functions use, and with them the
  process-wide flags \<open>gQuiet\<close>, \<open>gProgramMode\<close> and \<open>gUSB\<close>.  \<open>fTransport\<close> is a pointer:
  \<open>None\<close> is the null pointer.  \<open>progressCalls\<close> is not a member: it records the calls of
  the overridable \<open>DownloadProgress\<close>, with their arguments.
\<close>

record RCX_Link =
  fTransport :: "RCX_Transport option"
  fTarget :: RCX_TargetType
  fSynced :: bool
  fResult :: RCX_Result
  fReply :: "UByte list"
  fDownloadTotal :: int
  fDownloadSoFar :: int
  fOmitHeader :: bool
  fRCXProgramChunkSize :: int
  fRCXFirmwareChunkSize :: int
  fDownloadWaitTime :: int
  fVerbose :: bool
  fMaxZeros :: int
  fMaxOnes :: int
  gQuiet :: bool
  gProgramMode :: bool
  gUSB :: bool
  progressCalls :: "(int \<times> int \<times> int) list"

definition kFragmentChunk :: int where "kFragmentChunk = 20"
definition kFirmwareChunk :: int where "kFirmwareChunk = 200"
definition kDownloadWaitTime :: int where "kDownloadWaitTime = 300"
definition kMaxZerosUSB :: int where "kMaxZerosUSB = 23"
definition kMaxZerosSerial :: int where "kMaxZerosSerial = 30"
definition kMaxOnes :: int where "kMaxOnes = 90"

text \<open>
  The constructor sets seven members and leaves the others as they are found in
  memory: it is applied to a link whose members are arbitrary.
\<close>

definition RCX_Link_ctor :: "RCX_Link \<Rightarrow> RCX_Link" where
  "RCX_Link_ctor raw =
     raw\<lparr>fTransport := None,
         fOmitHeader := False,
         fRCXProgramChunkSize := kFragmentChunk,
         fRCXFirmwareChunkSize := kFirmwareChunk,
         fDownloadWaitTime := kDownloadWaitTime,
         fVerbose := False,
         fMaxOnes := kMaxOnes\<rparr>"

subsection \<open>\<open>RCX_Link::ExpectedReplyLength\<close>\<close>

text \<open>
  The \<open>switch\<close> on \<open>data[0] & 0xf7\<close>, its cases in the order of the source.  The bytes
  are promoted to \<open>int\<close> before the arithmetic, as in C.
\<close>

definition ExpectedReplyLength :: "RCX_Defs \<Rightarrow> RCX_Link \<Rightarrow> UByte list \<Rightarrow> int \<Rightarrow> int option" where
  "ExpectedReplyLength d st data len =
     (case peek data 0 of
        None \<Rightarrow> None
      | Some d0 \<Rightarrow>
          (let opc = uint d0 AND 0xf7 in
           if opc = kRCX_BeginTaskOp d \<or> opc = kRCX_BeginSubOp d \<or>
              opc = kRCX_DownloadOp d \<or> opc = kRCX_BeginFirmwareOp d then Some 2
           else if opc = kRCX_BatteryLevelOp d \<or> opc = kRCX_ReadOp d then Some 3
           else if opc = kRCX_GetVersions d then Some 9
           else if opc = kRCX_UploadEepromOp d then
             Some (if fTarget st = kRCX_CMTarget then 1 else 17)
           else if opc = kRCX_UnlockOp d then Some 26
           else if opc = kRCX_GetMemMap d then
             Some (if fTarget st = kRCX_CMTarget then 21 else 189)
           else if opc = kRCX_PollMemoryOp d then
             (if len \<noteq> 4 then Some 0
              else (case peek data 3 of
                      None \<Rightarrow> None
                    | Some d3 \<Rightarrow> Some (uint d3 + 1)))
           else if opc = kRCX_UploadDatalogOp d then
             (if len \<noteq> 5 then Some 0
              else (case peek data 3 of
                      None \<Rightarrow> None
                    | Some d3 \<Rightarrow>
                        (case peek data 4 of
                           None \<Rightarrow> None
                         | Some d4 \<Rightarrow> Some ((uint d3 + push_bit 8 (uint d4)) * 3 + 1))))
           else Some 1))"

subsection \<open>\<open>RCX_Link::Send\<close>\<close>

text \<open>
  \<open>Send(cmd, retry, timeout)\<close> hands \<open>cmd->GetBody()\<close> and \<open>cmd->GetLength()\<close> to
  \<open>Send(data, length, retry, timeout)\<close>; the model keeps both in one function and
  records the request under the command whose body it is.  A call through the null
  \<open>fTransport\<close> does not return.
\<close>

definition Send :: "RCX_Defs \<Rightarrow> RCX_Link \<Rightarrow> RCX_Cmd \<Rightarrow> bool \<Rightarrow> int \<Rightarrow> (RCX_Result \<times> RCX_Link) option" where
  "Send d st cmd retry timeout =
     (case ExpectedReplyLength d st (GetBody d cmd) (GetLength d cmd) of
        None \<Rightarrow> None
      | Some expected \<Rightarrow>
          if GetLength d cmd > kMaxCmdLength d \<or> expected > kMaxReplyLength d then
            Some (Inl kRCX_RequestError, st)
          else
            (case fTransport st of
               None \<Rightarrow> None
             | Some t \<Rightarrow>
                 (case Transport_Send t
                         \<lparr>rqCmd = cmd, rqLength = GetLength d cmd, rqExpected = expected,
                          rqRetry = retry, rqTimeout = timeout\<rparr> of
                    (result, reply, t') \<Rightarrow>
                      Some (result, st\<lparr>fTransport := Some t', fReply := reply, fResult := result\<rparr>))))"

subsection \<open>\<open>RCX_Link::Sync\<close> and \<open>RCX_Link::Close\<close>\<close>

definition Sync :: "RCX_Defs \<Rightarrow> RCX_Link \<Rightarrow> (RCX_Result \<times> RCX_Link) option" where
  "Sync d st =
     (if fSynced st then Some (kRCX_OK, st)
      else
        (case Send d st MakePing True (kDefaultTimeout d) of
           None \<Rightarrow> None
         | Some (result, st1) \<Rightarrow>
             if RCX_ERROR result then Some (result, st1)
             else if fTarget st1 = kRCX_CMTarget then
               (case Send d st1 MakeUnlockCM True (kDefaultTimeout d) of
                  None \<Rightarrow> None
                | Some (result2, st2) \<Rightarrow>
                    if RCX_ERROR result2 then Some (result2, st2)
                    else Some (kRCX_OK, st2\<lparr>fSynced := True\<rparr>))
             else if fTarget st1 = kRCX_ScoutTarget then
               (case Send d st1 MakeUnlock True (kDefaultTimeout d) of
                  None \<Rightarrow> None
                | Some (result2, st2) \<Rightarrow>
                    if RCX_ERROR result2 then Some (result2, st2)
                    else
                      (case Send d st2 (Set [0x47, 0x80]) True (kDefaultTimeout d) of
                         None \<Rightarrow> None
                       | Some (result3, st3) \<Rightarrow>
                           if RCX_ERROR result3 then Some (result3, st3)
                           else Some (kRCX_OK, st3\<lparr>fSynced := True\<rparr>)))
             else Some (kRCX_OK, st1\<lparr>fSynced := True\<rparr>)))"

definition Close :: "RCX_Link \<Rightarrow> RCX_Link" where
  "Close st =
     (case fTransport st of
        Some t \<Rightarrow> st\<lparr>fTransport := None\<rparr>
      | None \<Rightarrow> st)"

subsection \<open>\<open>CheckPrefix\<close> and \<open>RCX_Link::Open\<close>\<close>

text \<open>
  \<open>tolower\<close> of the C locale.  A C string is the list of its characters before the
  terminating 0; the result of \<open>CheckPrefix\<close> is a pointer into \<open>s\<close>, that is a suffix
  of it, or the null pointer.
\<close>

definition tolower :: "char \<Rightarrow> char" where
  "tolower c =
     (if 65 \<le> (of_char c :: nat) \<and> (of_char c :: nat) \<le> 90
      then char_of ((of_char c :: nat) + 32) else c)"

fun CheckPrefix :: "string \<Rightarrow> string \<Rightarrow> string option" where
  "CheckPrefix s [] =
     (case s of
        [] \<Rightarrow> Some []
      | c # rest \<Rightarrow> if c = CHR '':'' then Some rest else None)"
| "CheckPrefix [] (p # prefix) = None"
| "CheckPrefix (c # s) (p # prefix) =
     (if tolower p \<noteq> tolower c then None else CheckPrefix s prefix)"

text \<open>
  What \<open>Open\<close> reads from its host: the environment variables, the first token of a
  configuration file (empty when the file cannot be opened or holds none), the compiled
  default name, whether a USB tower pipe or a TCP pipe can be made, and the transport
  object that \<open>new RCX_PipeTransport(pipe)\<close> yields (the build without \<open>GHOST\<close>, on a
  host that is not \<open>WIN32\<close>).
\<close>

record HostEnv =
  env_RCX_PORT :: "string option"
  env_HOME :: "string option"
  PATH_MAX :: int
  firstToken :: "string \<Rightarrow> string"
  DEFAULT_DEVICE_NAME :: "string option"
  PSerial_GetDefaultName :: "string option"
  RCX_NewUSBTowerPipe :: bool
  RCX_NewTcpPipe :: bool
  new_RCX_PipeTransport :: "PipeKind \<Rightarrow> RCX_Transport"

definition kDeviceUserConfFile :: string where
  "kDeviceUserConfFile = ''/.rcx/device.conf''"

definition kDeviceEtcConfFile :: string where
  "kDeviceEtcConfFile = ''/etc/rcx/device.conf''"

text \<open>
  The lookup of the user configuration file.  \<open>strcpy\<close> from a null \<open>HOME\<close>, or of a
  path that does not fit \<open>userConfPath[PATH_MAX]\<close>, has no defined behaviour.
\<close>

definition userConfPortName :: "HostEnv \<Rightarrow> string option \<Rightarrow> string option option" where
  "userConfPortName env portName =
     (case portName of
        Some p \<Rightarrow> Some (Some p)
      | None \<Rightarrow>
          (case env_HOME env of
             None \<Rightarrow> None
           | Some homePath \<Rightarrow>
               if int (length homePath) + int (length kDeviceUserConfFile) \<ge> PATH_MAX env then None
               else
                 (let portName_buf = firstToken env (homePath @ kDeviceUserConfFile)
                  in Some (if length portName_buf > 0 then Some portName_buf else None))))"

definition etcConfPortName :: "HostEnv \<Rightarrow> string option \<Rightarrow> string option" where
  "etcConfPortName env portName =
     (case portName of
        Some p \<Rightarrow> Some p
      | None \<Rightarrow>
          (let portName_buf = firstToken env kDeviceEtcConfFile
           in if length portName_buf > 0 then Some portName_buf else None))"

definition CheckPrefix_opt :: "string option \<Rightarrow> string \<Rightarrow> string option" where
  "CheckPrefix_opt portName prefix =
     (case portName of None \<Rightarrow> None | Some p \<Rightarrow> CheckPrefix p prefix)"

text \<open>
  The part of \<open>Open\<close> after the transport is made: \<open>SetOmitHeader\<close>, the transport's
  \<open>Open\<close>, the command that turns off pinging on a Spybotics target, and the final
  assignments.  \<open>PREQUIRENOT(result, Fail_Open)\<close> jumps when \<open>result\<close> is not 0.
\<close>

text \<open>
  The command of line 171,
  \<open>cmd.MakeSet(RCX_VALUE(kRCX_SpybotPingCtrlType, 1), RCX_VALUE(2, 0))\<close>.
\<close>

definition SpybotPingOffCmd :: RCX_Cmd where
  "SpybotPingOffCmd = MakeSet (RCX_VALUE kRCX_SpybotPingCtrlType 1) (RCX_VALUE (RCX_ValueTypeCode 2) 0)"

definition Open_transport ::
  "RCX_Defs \<Rightarrow> RCX_Link \<Rightarrow> RCX_Transport \<Rightarrow> RCX_TargetType \<Rightarrow> string option \<Rightarrow> 32 word
     \<Rightarrow> (RCX_Result \<times> RCX_Link) option" where
  "Open_transport d st t target devName options =
     (case Transport_Open (t\<lparr>tOmitHeader := fOmitHeader st\<rparr>) target devName options of
        (result, t') \<Rightarrow>
          if result \<noteq> kRCX_OK then Some (result, st\<lparr>fTransport := None\<rparr>)
          else
            (let st1 = st\<lparr>fTransport := Some t'\<rparr>;
                 finish = (\<lambda>s. Some (kRCX_OK,
                              s\<lparr>fMaxZeros := (if gUSB s then kMaxZerosUSB else kMaxZerosSerial),
                                fSynced := False, fResult := kRCX_OK\<rparr>))
             in if fTarget st1 = kRCX_SpyboticsTarget then
                  (case Send d st1 SpybotPingOffCmd True (kDefaultTimeout d) of
                     None \<Rightarrow> None
                   | Some (result2, st2) \<Rightarrow>
                       if RCX_ERROR result2 then Some (result2, st2) else finish st2)
                else finish st1))"

definition Open ::
  "RCX_Defs \<Rightarrow> HostEnv \<Rightarrow> RCX_Link \<Rightarrow> RCX_TargetType \<Rightarrow> string option \<Rightarrow> 32 word
     \<Rightarrow> (RCX_Result \<times> RCX_Link) option" where
  "Open d env st target portName0 options =
     (let st1 = st\<lparr>fVerbose := (options AND kVerboseMode d \<noteq> 0), fTarget := target\<rparr>;
          portName1 = (case portName0 of None \<Rightarrow> env_RCX_PORT env | Some p \<Rightarrow> Some p)
      in case userConfPortName env portName1 of
           None \<Rightarrow> None
         | Some portName2 \<Rightarrow>
             (let portName3 = etcConfPortName env portName2;
                  portName = (case portName3 of None \<Rightarrow> DEFAULT_DEVICE_NAME env | Some p \<Rightarrow> Some p)
              in case CheckPrefix_opt portName ''usb'' of
                   Some devName \<Rightarrow>
                     (let st2 = st1\<lparr>gUSB := True\<rparr>
                      in if \<not> RCX_NewUSBTowerPipe env then Some (Inl kRCX_USBUnsupportedError, st2)
                         else Open_transport d st2 ((new_RCX_PipeTransport env USBTowerPipe)\<lparr>tSent := []\<rparr>)
                                target (Some devName) options)
                 | None \<Rightarrow>
                     (case CheckPrefix_opt portName ''tcp'' of
                        Some devName \<Rightarrow>
                          (let st2 = st1\<lparr>gUSB := False\<rparr>
                           in if \<not> RCX_NewTcpPipe env then Some (Inl kRCX_TcpUnsupportedError, st2)
                              else Open_transport d st2 ((new_RCX_PipeTransport env TcpPipe)\<lparr>tSent := []\<rparr>)
                                     target (Some devName) options)
                      | None \<Rightarrow>
                          (let st2 = st1\<lparr>gUSB := False\<rparr>;
                               devName =
                                 (case portName of
                                    Some p \<Rightarrow>
                                      (case CheckPrefix p ''serial'' of
                                         Some dn \<Rightarrow> Some dn
                                       | None \<Rightarrow> Some p)
                                  | None \<Rightarrow> PSerial_GetDefaultName env)
                           in Open_transport d st2 ((new_RCX_PipeTransport env SerialPipe)\<lparr>tSent := []\<rparr>)
                                target devName options))))"

subsection \<open>Progress\<close>

definition BeginProgress :: "RCX_Link \<Rightarrow> int \<Rightarrow> RCX_Link" where
  "BeginProgress st total0 = st\<lparr>fDownloadTotal := total0, fDownloadSoFar := 0\<rparr>"

text \<open>
  \<open>DownloadProgress\<close> is virtual: the argument \<open>cb\<close> of the functions below is the
  implementation in force, \<open>DownloadProgress\<close> is the one of the base class.
\<close>

definition DownloadProgress :: "int \<Rightarrow> int \<Rightarrow> int \<Rightarrow> bool" where
  "DownloadProgress soFar total0 chunkSize = True"

text \<open>
  \<open>fDownloadSoFar\<close> is an \<open>int\<close> of 32 bits: \<open>fDownloadSoFar += delta\<close> wraps around in
  two's complement, which \<open>int32\<close> writes out.
\<close>

definition int32 :: "int \<Rightarrow> int" where
  "int32 x = (x + 2147483648) mod 4294967296 - 2147483648"

definition IncrementProgress ::
  "(int \<Rightarrow> int \<Rightarrow> int \<Rightarrow> bool) \<Rightarrow> RCX_Link \<Rightarrow> int \<Rightarrow> bool \<times> RCX_Link" where
  "IncrementProgress cb st delta =
     (let st1 = st\<lparr>fDownloadSoFar := int32 (fDownloadSoFar st + delta)\<rparr>
      in if fDownloadTotal st1 \<noteq> 0 then
           (cb (fDownloadSoFar st1) (fDownloadTotal st1) delta,
            st1\<lparr>progressCalls :=
                  progressCalls st1 @ [(fDownloadSoFar st1, fDownloadTotal st1, delta)]\<rparr>)
         else (True, st1))"

subsection \<open>The chunk loop: \<open>RCX_Link::Download(data, length, chunk)\<close>\<close>

text \<open>
  The \<open>while\<close> loop; its state is the link, the pointer \<open>data\<close>, \<open>remain\<close> and \<open>seq\<close>.
  \<open>seq\<close> is a \<open>UShort\<close>, and the length handed to \<open>MakeDownload\<close> is \<open>(UShort)n\<close>.
  The loop has no bound of its own: where it does not end, the value is \<open>None\<close>.
  \<open>data += n\<close> with a negative \<open>n\<close> leaves the object, which has no defined behaviour.
\<close>

partial_function (option) Download_loop ::
  "RCX_Defs \<Rightarrow> (int \<Rightarrow> int \<Rightarrow> int \<Rightarrow> bool) \<Rightarrow> int \<Rightarrow> RCX_Link \<Rightarrow> UByte list \<Rightarrow> int \<Rightarrow> UShort
     \<Rightarrow> (RCX_Result \<times> RCX_Link) option" where
  "Download_loop d cb chunk st data remain seq =
     (if remain > 0 then
        (let seq1 = (if remain \<le> chunk \<and> (\<not> gQuiet st \<or> gProgramMode st) then 0 else seq);
             n = (if remain \<le> chunk then remain else chunk)
         in case fTransport st of
              None \<Rightarrow> None
            | Some t \<Rightarrow>
                (case AdjustChunkSize (fMaxZeros st) (fMaxOnes st) n data (tComplementData t) of
                   None \<Rightarrow> None
                 | Some n' \<Rightarrow>
                     (case Send d st (MakeDownload seq1 data (of_int n')) True (fDownloadWaitTime st) of
                        None \<Rightarrow> None
                      | Some (result, st1) \<Rightarrow>
                          if RCX_ERROR result then Some (result, st1)
                          else if n' < 0 then None
                          else
                            (case IncrementProgress cb st1 n' of
                               (continue, st2) \<Rightarrow>
                                 if \<not> continue then Some (Inl kRCX_AbortError, st2)
                                 else Download_loop d cb chunk st2 (drop (nat n') data)
                                        (remain - n') (seq1 + 1)))))
      else Some (kRCX_OK, st))"

definition Download ::
  "RCX_Defs \<Rightarrow> (int \<Rightarrow> int \<Rightarrow> int \<Rightarrow> bool) \<Rightarrow> RCX_Link \<Rightarrow> UByte list \<Rightarrow> int \<Rightarrow> int
     \<Rightarrow> (RCX_Result \<times> RCX_Link) option" where
  "Download d cb st data len chunk = Download_loop d cb chunk st data len 1"

subsection \<open>\<open>Checksum\<close> and \<open>RCX_Link::TransferFirmware\<close>\<close>

text \<open>
  \<open>while(length--) check += *data++;\<close> with \<open>check\<close> an \<open>int\<close> of 32 bits.  With a
  negative \<open>length\<close> the loop runs off the end of the data.
\<close>

function Checksum_loop :: "UByte list \<Rightarrow> int \<Rightarrow> 32 word \<Rightarrow> 32 word option" where
  "Checksum_loop data len check =
     (if len \<noteq> 0 then
        (case peek data 0 of
           None \<Rightarrow> None
         | Some b \<Rightarrow> Checksum_loop (drop 1 data) (len - 1) (check + ucast b))
      else Some check)"
  by pat_completeness auto
termination
  by (relation "measure (\<lambda>(data, len, check). length data)") (auto simp: peek_def split: if_splits)

definition Checksum :: "UByte list \<Rightarrow> int \<Rightarrow> 32 word option" where
  "Checksum data len = Checksum_loop data len 0"

text \<open>
  The command of lines 503 and 504:
  \<open>cmd.Set(kRCX_BeginFirmwareOp, (UByte)(start), (UByte)(start>>8), (UByte)check, (UByte)(check>>8), 0)\<close>.
\<close>

definition BeginFirmwareCmd :: "RCX_Defs \<Rightarrow> int \<Rightarrow> 32 word \<Rightarrow> RCX_Cmd" where
  "BeginFirmwareCmd d start check =
     Set [of_int (kRCX_BeginFirmwareOp d), of_int start, of_int (drop_bit 8 start),
          ucast check, ucast (signed_drop_bit 8 check), 0]"

text \<open>The checksum of line 502: \<open>Checksum(data, length < 0x4c00 ? length : 0x4c00)\<close>.\<close>

definition FirmwareChecksum :: "UByte list \<Rightarrow> int \<Rightarrow> 32 word option" where
  "FirmwareChecksum data len = Checksum data (if len < 0x4c00 then len else 0x4c00)"

definition TransferFirmware ::
  "RCX_Defs \<Rightarrow> (int \<Rightarrow> int \<Rightarrow> int \<Rightarrow> bool) \<Rightarrow> RCX_Link \<Rightarrow> UByte list \<Rightarrow> int \<Rightarrow> int \<Rightarrow> bool
     \<Rightarrow> (RCX_Result \<times> RCX_Link) option" where
  "TransferFirmware d cb st data len start progress =
     (case Sync d st of
        None \<Rightarrow> None
      | Some (result, st1) \<Rightarrow>
          if RCX_ERROR result then Some (result, st1)
          else
            (case Send d st1 (Set [of_int (kRCX_DeleteFirmware d), 1, 3, 5, 7, 0xb])
                    True (kDefaultTimeout d) of
               None \<Rightarrow> None
             | Some (result2, st2) \<Rightarrow>
                 if RCX_ERROR result2 then Some (result2, st2)
                 else
                   (case FirmwareChecksum data len of
                      None \<Rightarrow> None
                    | Some check \<Rightarrow>
                        (case Send d st2 (BeginFirmwareCmd d start check) True (kDefaultTimeout d) of
                           None \<Rightarrow> None
                         | Some (result3, st3) \<Rightarrow>
                             if RCX_ERROR result3 then Some (result3, st3)
                             else
                               (case Download d cb (BeginProgress st3 (if progress then len else 0))
                                       data len (fRCXFirmwareChunkSize st3) of
                                  None \<Rightarrow> None
                                | Some (result4, st4) \<Rightarrow>
                                    if RCX_ERROR result4 then Some (result4, st4)
                                    else
                                      (case Send d st4 MakeUnlock False (kMaxTimeout d) of
                                         None \<Rightarrow> None
                                       | Some (result5, st5) \<Rightarrow>
                                           (case fTransport st5 of
                                              None \<Rightarrow> None
                                            | Some t \<Rightarrow>
                                                if tFastMode t then Some (kRCX_OK, st5)
                                                else Some (result5, st5))))))))"

section \<open>The reply-length table of the specification\<close>

text \<open>
  The table of section 4.2 of the specification, written from its words, to be
  compared with \<open>ExpectedReplyLength\<close>: the opcode classes, the opcode after the mask
  \<open>0xF7\<close> as the key, and one row for each class; \<open>None\<close> is the row \<open>default\<close>.
\<close>

datatype OpcodeClass =
    BeginTask | BeginSub | DownloadChunk | BeginFirmware
  | BatteryLevel | Read
  | GetVersions
  | UploadEeprom
  | Unlock
  | GetMemMap
  | PollMemory
  | UploadDatalog

definition spec_opcodeClasses :: "RCX_Defs \<Rightarrow> (int \<times> OpcodeClass) list" where
  "spec_opcodeClasses d =
     [(kRCX_BeginTaskOp d, BeginTask), (kRCX_BeginSubOp d, BeginSub),
      (kRCX_DownloadOp d, DownloadChunk), (kRCX_BeginFirmwareOp d, BeginFirmware),
      (kRCX_BatteryLevelOp d, BatteryLevel), (kRCX_ReadOp d, Read),
      (kRCX_GetVersions d, GetVersions), (kRCX_UploadEepromOp d, UploadEeprom),
      (kRCX_UnlockOp d, Unlock), (kRCX_GetMemMap d, GetMemMap),
      (kRCX_PollMemoryOp d, PollMemory), (kRCX_UploadDatalogOp d, UploadDatalog)]"

definition spec_ReplyLengthTable ::
  "OpcodeClass option \<Rightarrow> RCX_TargetType \<Rightarrow> UByte list \<Rightarrow> int \<Rightarrow> int" where
  "spec_ReplyLengthTable cls target command commandLength =
     (case cls of
        None \<Rightarrow> 1
      | Some BeginTask \<Rightarrow> 2
      | Some BeginSub \<Rightarrow> 2
      | Some DownloadChunk \<Rightarrow> 2
      | Some BeginFirmware \<Rightarrow> 2
      | Some BatteryLevel \<Rightarrow> 3
      | Some Read \<Rightarrow> 3
      | Some GetVersions \<Rightarrow> 9
      | Some UploadEeprom \<Rightarrow> (if target = kRCX_CMTarget then 1 else 17)
      | Some Unlock \<Rightarrow> 26
      | Some GetMemMap \<Rightarrow> (if target = kRCX_CMTarget then 21 else 189)
      | Some PollMemory \<Rightarrow> (if commandLength = 4 then uint (command ! 3) + 1 else 0)
      | Some UploadDatalog \<Rightarrow>
          (if commandLength = 5
           then (uint (command ! 3) OR push_bit 8 (uint (command ! 4))) * 3 + 1 else 0))"

definition spec_ReplyLengthOracle :: "RCX_Defs \<Rightarrow> RCX_TargetType \<Rightarrow> UByte list \<Rightarrow> int \<Rightarrow> int" where
  "spec_ReplyLengthOracle d target command commandLength =
     spec_ReplyLengthTable (map_of (spec_opcodeClasses d) (uint (command ! 0) AND 0xF7))
       target command commandLength"

section \<open>Observations on a run\<close>


fun dlBytes :: "RCX_Cmd \<Rightarrow> UByte list" where
  "dlBytes (MakeDownload seq dat n) = take (unat n) dat"
| "dlBytes cmd = []"

text \<open>
  \<open>downloadFits\<close>: \<open>Send\<close> rejects no download command of at most \<open>chunk\<close> bytes, that
  is its length is within \<open>kMaxCmdLength\<close> and its expected reply within
  \<open>kMaxReplyLength\<close>.  \<open>sameSettings\<close>: two states of the link agree on the members that
  the chunk loop reads and does not write.  \<open>abortFree\<close>: the transport of the link never
  answers with the code \<open>kRCX_AbortError\<close>.
\<close>

definition downloadFits :: "RCX_Defs \<Rightarrow> RCX_TargetType \<Rightarrow> int \<Rightarrow> bool" where
  "downloadFits d target chunk \<longleftrightarrow>
     (\<forall>seq dat n s e. unat n \<le> nat chunk \<longrightarrow> fTarget s = target \<longrightarrow>
        ExpectedReplyLength d s (GetBody d (MakeDownload seq dat n))
          (GetLength d (MakeDownload seq dat n)) = Some e \<longrightarrow>
        GetLength d (MakeDownload seq dat n) \<le> kMaxCmdLength d \<and> e \<le> kMaxReplyLength d)"

definition sameSettings :: "RCX_Link \<Rightarrow> RCX_Link \<Rightarrow> bool" where
  "sameSettings st st' \<longleftrightarrow>
     fMaxZeros st' = fMaxZeros st \<and> fMaxOnes st' = fMaxOnes st \<and>
     gQuiet st' = gQuiet st \<and> gProgramMode st' = gProgramMode st \<and>
     fDownloadTotal st' = fDownloadTotal st \<and> fDownloadWaitTime st' = fDownloadWaitTime st \<and>
     fTarget st' = fTarget st"

definition abortFree :: "RCX_Link \<Rightarrow> bool" where
  "abortFree st \<longleftrightarrow>
     (\<forall>t. fTransport st = Some t \<longrightarrow> (\<forall>k rq. fst (tOracle t k rq) \<noteq> Inl kRCX_AbortError))"

section \<open>An instance of the parameters\<close>

text \<open>
  The theorems below hold for every value of the parameters.  To evaluate the model at
  concrete inputs, this section fixes one: opcodes, capacities and an encoding of the
  commands, a host whose device name selects the USB tower, a transport whose every
  exchange succeeds with a reply of one byte, and a link as its constructor leaves it.
\<close>

fun sampleTypeCode :: "RCX_ValueType \<Rightarrow> UByte" where
  "sampleTypeCode kRCX_SpybotPingCtrlType = 51"
| "sampleTypeCode (RCX_ValueTypeCode c) = of_int c"

fun sampleBody :: "RCX_Cmd \<Rightarrow> UByte list" where
  "sampleBody MakePing = [0x10]"
| "sampleBody MakeUnlock = [0xa5, 0x44, 0x6f, 0x20, 0x79, 0x6f, 0x75]"
| "sampleBody MakeUnlockCM = [0xa5, 0x44, 0x6f, 0x20, 0x79, 0x6f, 0x75]"
| "sampleBody (MakeSet (RCX_VALUE t1 v1) (RCX_VALUE t2 v2)) =
     [0x05, sampleTypeCode t1, of_int v1, sampleTypeCode t2, of_int v2, of_int (drop_bit 8 v2)]"
| "sampleBody (MakeDownload seq data n) =
     [0x45, ucast seq, ucast (drop_bit 8 seq), ucast n, ucast (drop_bit 8 n)] @ take (unat n) data"
| "sampleBody (Set args) = args"

definition sampleDefs :: RCX_Defs where
  "sampleDefs =
     \<lparr>kRCX_BeginTaskOp = 0x25, kRCX_BeginSubOp = 0x35, kRCX_DownloadOp = 0x45,
      kRCX_BeginFirmwareOp = 0x75, kRCX_BatteryLevelOp = 0x30, kRCX_ReadOp = 0x12,
      kRCX_GetVersions = 0x15, kRCX_UploadEepromOp = 0x11, kRCX_UnlockOp = 0xa5,
      kRCX_GetMemMap = 0x20, kRCX_PollMemoryOp = 0x63, kRCX_UploadDatalogOp = 0xa4,
      kRCX_Message = 0xf7, kRCX_Remote = 0xd2, kRCX_DeleteFirmware = 0x65,
      kMaxCmdLength = 1300, kMaxReplyLength = 1000, kVerboseMode = 1,
      kDefaultTimeout = 0, kMaxTimeout = 500, GetBody = sampleBody\<rparr>"

definition sampleTransport :: "PipeKind \<Rightarrow> RCX_Transport" where
  "sampleTransport pipe =
     \<lparr>tPipe = pipe, tOpenResult = kRCX_OK, tOracle = (\<lambda>k rq. (Inr 1, [0, 0])),
      tSent = [], tOmitHeader = False, tDevName = None, tFastMode = False,
      tComplementData = False\<rparr>"

definition sampleEnv :: HostEnv where
  "sampleEnv =
     \<lparr>env_RCX_PORT = Some ''usb'', env_HOME = Some ''/root'', PATH_MAX = 4096,
      firstToken = (\<lambda>path. []), DEFAULT_DEVICE_NAME = Some ''usb'',
      PSerial_GetDefaultName = Some ''/dev/ttyS0'',
      RCX_NewUSBTowerPipe = True, RCX_NewTcpPipe = True,
      new_RCX_PipeTransport = sampleTransport\<rparr>"

definition sampleLink :: RCX_Link where
  "sampleLink =
     RCX_Link_ctor
       \<lparr>fTransport = None, fTarget = kRCX_RCXTarget, fSynced = False, fResult = kRCX_OK,
        fReply = [], fDownloadTotal = 0, fDownloadSoFar = 0, fOmitHeader = False,
        fRCXProgramChunkSize = 0, fRCXFirmwareChunkSize = 0, fDownloadWaitTime = 0,
        fVerbose = False, fMaxZeros = 0, fMaxOnes = 0, gQuiet = False, gProgramMode = False,
        gUSB = False, progressCalls = []\<rparr>"

text \<open>
  Runs of the instance: \<open>Open\<close> on an RCX target and then \<open>Sync\<close>; the same on
  a transport whose second exchange fails, followed by one more \<open>Send\<close>; and \<open>Open\<close> on
  a Spybotics target.
\<close>

definition sampleOpened :: "(RCX_Result \<times> RCX_Link) option" where
  "sampleOpened = Open sampleDefs sampleEnv sampleLink kRCX_RCXTarget (Some ''usb'') 0"

definition sampleSynced :: "(RCX_Result \<times> RCX_Link) option" where
  "sampleSynced = (case sampleOpened of None \<Rightarrow> None | Some (r, s) \<Rightarrow> Sync sampleDefs s)"

definition sampleFlakyEnv :: HostEnv where
  "sampleFlakyEnv =
     sampleEnv\<lparr>new_RCX_PipeTransport :=
       (\<lambda>pipe. (sampleTransport pipe)\<lparr>tOracle :=
          (\<lambda>k rq. if k = 1 then (Inl (kRCX_TransportError (- 2)), []) else (Inr 1, [0, 0]))\<rparr>)\<rparr>"

definition sampleSendFailed :: "(RCX_Result \<times> RCX_Link) option" where
  "sampleSendFailed =
     (case Open sampleDefs sampleFlakyEnv sampleLink kRCX_RCXTarget (Some ''usb'') 0 of
        None \<Rightarrow> None
      | Some (r, s) \<Rightarrow>
          (case Sync sampleDefs s of
             None \<Rightarrow> None
           | Some (r', s') \<Rightarrow> Send sampleDefs s' MakePing True 0))"

definition sampleSpybotOpened :: "(RCX_Result \<times> RCX_Link) option" where
  "sampleSpybotOpened = Open sampleDefs sampleEnv sampleLink kRCX_SpyboticsTarget (Some ''usb'') 0"

text \<open>
  Downloads on the instance, after \<open>Open\<close>: eight bytes in chunks of three; the same
  after \<open>BeginProgress(0)\<close> with a progress callback that always asks to abort; and a
  firmware transfer of eight bytes with the progress flag false and that callback.
\<close>

definition sampleDownload8 :: "(RCX_Result \<times> RCX_Link) option" where
  "sampleDownload8 =
     (case sampleOpened of
        None \<Rightarrow> None
      | Some (r, s) \<Rightarrow> Download sampleDefs DownloadProgress s [1, 2, 3, 4, 5, 6, 7, 8] 8 3)"

definition sampleSilentDownload :: "(RCX_Result \<times> RCX_Link) option" where
  "sampleSilentDownload =
     (case sampleOpened of
        None \<Rightarrow> None
      | Some (r, s) \<Rightarrow>
          Download sampleDefs (\<lambda>soFar total0 chunkSize. False) (BeginProgress s 0)
            [1, 2, 3, 4, 5, 6, 7, 8] 8 3)"

definition sampleNubTransfer :: "(RCX_Result \<times> RCX_Link) option" where
  "sampleNubTransfer =
     (case sampleOpened of
        None \<Rightarrow> None
      | Some (r, s) \<Rightarrow>
          TransferFirmware sampleDefs (\<lambda>soFar total0 chunkSize. False) s
            [1, 2, 3, 4, 5, 6, 7, 8] 8 0x8000 False)"

text \<open>
  More downloads on the instance, after \<open>Open\<close>: thirty zero bytes in chunks of 200,
  which the adaptor cuts after 23 bytes; 65537 bytes in chunks of one byte; and, on a
  transport that sends complement bytes, 65536 bytes in one chunk of 65536.
\<close>

definition sampleZerosDownload :: "(RCX_Result \<times> RCX_Link) option" where
  "sampleZerosDownload =
     (case sampleOpened of
        None \<Rightarrow> None
      | Some (r, s) \<Rightarrow> Download sampleDefs DownloadProgress s (replicate 30 0) 30 200)"


definition sampleComplementEnv :: HostEnv where
  "sampleComplementEnv =
     sampleEnv\<lparr>new_RCX_PipeTransport :=
       (\<lambda>pipe. (sampleTransport pipe)\<lparr>tComplementData := True\<rparr>)\<rparr>"

definition sampleBigChunkDownload :: "(RCX_Result \<times> RCX_Link) option" where
  "sampleBigChunkDownload =
     (case Open sampleDefs sampleComplementEnv sampleLink kRCX_RCXTarget (Some ''usb'') 0 of
        None \<Rightarrow> None
      | Some (r, s) \<Rightarrow>
          Download sampleDefs DownloadProgress s (replicate 65536 0xff) 65536 65536)"

section \<open>Properties\<close>

text \<open>
  C7: with complement-byte transmission enabled, the chunk adaptor returns the proposed
  length unchanged, for every proposed length and payload (and every setting of the two
  thresholds).
\<close>

theorem C7_adjust_complement_identity:
  "AdjustChunkSize maxZeros maxOnes n data True = Some n"
  by (simp add: AdjustChunkSize_def)

subsection \<open>The chunk adaptor\<close>

lemma peek_Some: "0 \<le> k \<Longrightarrow> k < int (length data) \<Longrightarrow> peek data k = Some (data ! nat k)"
  by (simp add: peek_def)

lemma zeroRun_char:
  "0 \<le> i \<Longrightarrow> 0 \<le> j \<Longrightarrow> j \<le> maxZeros \<Longrightarrow> i + maxZeros \<le> int (length data) \<Longrightarrow>
   \<exists>r. zeroRun maxZeros data i j = Some r \<and> j \<le> r \<and> r \<le> maxZeros \<and>
       (r = maxZeros \<longleftrightarrow> (\<forall>k. j \<le> k \<and> k < maxZeros \<longrightarrow> data ! nat (i + k) = 0))"
proof (induction maxZeros data i j rule: zeroRun.induct)
  case (1 maxZeros data i j)
  show ?case
  proof (cases "j < maxZeros")
    case False
    then have "zeroRun maxZeros data i j = Some j" by (subst zeroRun.simps) simp
    moreover have "j = maxZeros" using False "1.prems" by simp
    ultimately show ?thesis by auto
  next
    case True
    have pk: "peek data (i + j) = Some (data ! nat (i + j))"
      using True "1.prems" by (simp add: peek_Some)
    show ?thesis
    proof (cases "data ! nat (i + j) = 0")
      case nz: False
      have "zeroRun maxZeros data i j = Some j"
        using True pk nz by (subst zeroRun.simps) simp
      moreover have "\<not> (\<forall>k. j \<le> k \<and> k < maxZeros \<longrightarrow> data ! nat (i + k) = 0)"
        using nz True by auto
      ultimately show ?thesis using True by auto
    next
      case z: True
      have step: "zeroRun maxZeros data i j = zeroRun maxZeros data i (j + 1)"
        using True pk z by (subst zeroRun.simps) simp
      from "1.IH"[OF True pk] z "1.prems" True
      obtain r where r: "zeroRun maxZeros data i (j + 1) = Some r" "j + 1 \<le> r" "r \<le> maxZeros"
        "r = maxZeros \<longleftrightarrow> (\<forall>k. j + 1 \<le> k \<and> k < maxZeros \<longrightarrow> data ! nat (i + k) = 0)"
        by auto
      have "(\<forall>k. j \<le> k \<and> k < maxZeros \<longrightarrow> data ! nat (i + k) = 0) \<longleftrightarrow>
            (\<forall>k. j + 1 \<le> k \<and> k < maxZeros \<longrightarrow> data ! nat (i + k) = 0)"
      proof
        assume a: "\<forall>k. j + 1 \<le> k \<and> k < maxZeros \<longrightarrow> data ! nat (i + k) = 0"
        show "\<forall>k. j \<le> k \<and> k < maxZeros \<longrightarrow> data ! nat (i + k) = 0"
        proof (intro allI impI)
          fix k assume k: "j \<le> k \<and> k < maxZeros"
          show "data ! nat (i + k) = 0"
          proof (cases "k = j")
            case True then show ?thesis using z by simp
          next
            case False then show ?thesis using a k by auto
          qed
        qed
      qed auto
      with r step show ?thesis by auto
    qed
  qed
qed


lemma zeros_window_iff:
  assumes "0 \<le> i" "0 \<le> m" "i + m \<le> int (length data)"
  shows "(\<forall>k. 0 \<le> k \<and> k < m \<longrightarrow> data ! nat (i + k) = 0) \<longleftrightarrow>
         take (nat m) (drop (nat i) data) = replicate (nat m) (0::UByte)"
proof -
  have len: "length (take (nat m) (drop (nat i) data)) = nat m"
    using assms by auto
  have nth: "\<And>q. q < nat m \<Longrightarrow> take (nat m) (drop (nat i) data) ! q = data ! nat (i + int q)"
    using assms by (simp add: nat_add_distrib)
  show ?thesis
  proof
    assume a: "\<forall>k. 0 \<le> k \<and> k < m \<longrightarrow> data ! nat (i + k) = 0"
    show "take (nat m) (drop (nat i) data) = replicate (nat m) 0"
    proof (rule nth_equalityI)
      show "length (take (nat m) (drop (nat i) data)) = length (replicate (nat m) (0::UByte))"
        using len by simp
    next
      fix q assume "q < length (take (nat m) (drop (nat i) data))"
      then have q: "q < nat m" using len by simp
      then have "data ! nat (i + int q) = 0" using a by auto
      then show "take (nat m) (drop (nat i) data) ! q = replicate (nat m) 0 ! q"
        using q nth by simp
    qed
  next
    assume e: "take (nat m) (drop (nat i) data) = replicate (nat m) 0"
    show "\<forall>k. 0 \<le> k \<and> k < m \<longrightarrow> data ! nat (i + k) = 0"
    proof (intro allI impI)
      fix k assume k: "0 \<le> k \<and> k < m"
      then have q: "nat k < nat m" by auto
      have "data ! nat (i + int (nat k)) = take (nat m) (drop (nat i) data) ! nat k"
        using nth[OF q] by simp
      also have "\<dots> = 0" using e q by simp
      finally show "data ! nat (i + k) = 0" using k by simp
    qed
  qed
qed

lemma zeroRun_window:
  assumes "0 \<le> i" "0 \<le> maxZeros" "i + maxZeros \<le> int (length data)"
  shows "\<exists>r. zeroRun maxZeros data i 0 = Some r \<and> r \<le> maxZeros \<and>
           (r \<ge> maxZeros \<longleftrightarrow> take (nat maxZeros) (drop (nat i) data) = replicate (nat maxZeros) 0)"
proof -
  from zeroRun_char[of i 0 maxZeros data] assms
  obtain r where r: "zeroRun maxZeros data i 0 = Some r" "r \<le> maxZeros"
     "r = maxZeros \<longleftrightarrow> (\<forall>k. 0 \<le> k \<and> k < maxZeros \<longrightarrow> data ! nat (i + k) = 0)"
    by auto
  then show ?thesis using zeros_window_iff[OF assms] by auto
qed

lemma zeroScan_bounds:
  "0 \<le> i \<Longrightarrow> 0 \<le> maxZeros \<Longrightarrow> sz \<le> int (length data) \<Longrightarrow>
   \<exists>r. zeroScan maxZeros data sz i = Some r \<and> r \<le> sz \<and> min sz maxZeros \<le> r"
proof (induction maxZeros data sz i rule: zeroScan.induct)
  case (1 maxZeros data sz i)
  show ?case
  proof (cases "i < sz - maxZeros")
    case False
    then have "zeroScan maxZeros data sz i = Some sz" by (subst zeroScan.simps) simp
    then show ?thesis by simp
  next
    case True
    have pk: "peek data i = Some (data ! nat i)"
      using True "1.prems" by (simp add: peek_Some)
    show ?thesis
    proof (cases "data ! nat i = 0")
      case nz: False
      have "zeroScan maxZeros data sz i = zeroScan maxZeros data sz (i + 1)"
        using True pk nz by (subst zeroScan.simps) simp
      moreover from "1.IH"(1)[OF True pk nz] "1.prems"
      have "\<exists>r. zeroScan maxZeros data sz (i + 1) = Some r \<and> r \<le> sz \<and> min sz maxZeros \<le> r"
        by simp
      ultimately show ?thesis by simp
    next
      case z: True
      from zeroRun_window[of i maxZeros data] True "1.prems"
      obtain j where j: "zeroRun maxZeros data i 0 = Some j" "j \<le> maxZeros" by auto
      show ?thesis
      proof (cases "j \<ge> maxZeros")
        case hit: True
        have "zeroScan maxZeros data sz i = Some (i + maxZeros)"
          using True pk z j hit by (subst zeroScan.simps) simp
        then show ?thesis using True "1.prems" by simp
      next
        case miss: False
        have "zeroScan maxZeros data sz i = zeroScan maxZeros data sz (i + 1)"
          using True pk z j miss by (subst zeroScan.simps) simp
        moreover from "1.IH"(2)[OF True pk _ j(1) miss] z "1.prems"
        have "\<exists>r. zeroScan maxZeros data sz (i + 1) = Some r \<and> r \<le> sz \<and> min sz maxZeros \<le> r"
          by simp
        ultimately show ?thesis by simp
      qed
    qed
  qed
qed

lemma zeroScan_first_run:
  "0 \<le> i0 \<Longrightarrow> i0 \<le> i \<Longrightarrow> i < sz - maxZeros \<Longrightarrow> 1 \<le> maxZeros \<Longrightarrow> sz \<le> int (length data) \<Longrightarrow>
   take (nat maxZeros) (drop (nat i) data) = replicate (nat maxZeros) 0 \<Longrightarrow>
   (\<forall>k. i0 \<le> k \<and> k < i \<longrightarrow> take (nat maxZeros) (drop (nat k) data) \<noteq> replicate (nat maxZeros) 0) \<Longrightarrow>
   zeroScan maxZeros data sz i0 = Some (i + maxZeros)"
proof (induction maxZeros data sz i0 rule: zeroScan.induct)
  case (1 maxZeros data sz i0)
  have guard: "i0 < sz - maxZeros" using "1.prems" by simp
  have pk: "peek data i0 = Some (data ! nat i0)"
    using guard "1.prems" by (simp add: peek_Some)
  from zeroRun_window[of i0 maxZeros data] guard "1.prems"
  obtain j where j: "zeroRun maxZeros data i0 0 = Some j" "j \<le> maxZeros"
     "j \<ge> maxZeros \<longleftrightarrow> take (nat maxZeros) (drop (nat i0) data) = replicate (nat maxZeros) 0"
    by auto
  show ?case
  proof (cases "i0 = i")
    case True
    then have hit: "j \<ge> maxZeros" using j "1.prems" by simp
    have "take (nat maxZeros) (drop (nat i) data) ! 0 = 0"
      using "1.prems"(6) "1.prems"(4) by simp
    moreover have "0 < nat maxZeros" "nat i \<le> length data"
      using "1.prems" guard by auto
    ultimately have z: "data ! nat i0 = 0" using True by simp
    show ?thesis using guard pk z j(1) hit True by (subst zeroScan.simps) simp
  next
    case False
    then have lt: "i0 < i" using "1.prems" by simp
    then have miss: "\<not> j \<ge> maxZeros" using j "1.prems" by simp
    have rest: "\<forall>k. i0 + 1 \<le> k \<and> k < i \<longrightarrow> take (nat maxZeros) (drop (nat k) data) \<noteq> replicate (nat maxZeros) 0"
      using "1.prems" by simp
    show ?thesis
    proof (cases "data ! nat i0 = 0")
      case nz: False
      have "zeroScan maxZeros data sz i0 = zeroScan maxZeros data sz (i0 + 1)"
        using guard pk nz by (subst zeroScan.simps) simp
      also have "\<dots> = Some (i + maxZeros)"
        using "1.IH"(1)[OF guard pk nz] lt rest "1.prems" by simp
      finally show ?thesis .
    next
      case z: True
      have "zeroScan maxZeros data sz i0 = zeroScan maxZeros data sz (i0 + 1)"
        using guard pk z j(1) miss by (subst zeroScan.simps) simp
      also have "\<dots> = Some (i + maxZeros)"
        using "1.IH"(2)[OF guard pk _ j(1) miss] z lt rest "1.prems" by simp
      finally show ?thesis .
    qed
  qed
qed


lemma sparseRun_Some:
  "0 \<le> i \<Longrightarrow> 0 \<le> j \<Longrightarrow> i + maxOnes \<le> int (length data) \<Longrightarrow>
   \<exists>r. sparseRun maxOnes data i j s = Some r"
proof (induction maxOnes data i j s rule: sparseRun.induct)
  case (1 maxOnes data i j s)
  show ?case
  proof (cases "j < maxOnes")
    case False
    then show ?thesis by (subst sparseRun.simps) simp
  next
    case True
    have pk: "peek data (i + j) = Some (data ! nat (i + j))"
      using True "1.prems" by (simp add: peek_Some)
    show ?thesis
    proof (cases "nOnesDensity ! unat (data ! nat (i + j)) \<ge> 3")
      case dense: True
      show ?thesis
      proof (cases "s + 1 > kOnesPlusMinusScore")
        case True
        with \<open>j < maxOnes\<close> pk dense show ?thesis by (subst sparseRun.simps) simp
      next
        case False
        have "sparseRun maxOnes data i j s = sparseRun maxOnes data i (j + 1) (s + 1)"
          using \<open>j < maxOnes\<close> pk dense False by (subst sparseRun.simps) simp
        moreover have "\<exists>r. sparseRun maxOnes data i (j + 1) (s + 1) = Some r"
          using "1.IH"(1)[OF \<open>j < maxOnes\<close> pk dense False] "1.prems" by simp
        ultimately show ?thesis by simp
      qed
    next
      case sparse: False
      have "sparseRun maxOnes data i j s = sparseRun maxOnes data i (j + 1) (max_macro 0 (s - 2))"
        using True pk sparse by (subst sparseRun.simps) simp
      moreover have "\<exists>r. sparseRun maxOnes data i (j + 1) (max_macro 0 (s - 2)) = Some r"
        using "1.IH"(2)[OF True pk sparse] "1.prems" by simp
      ultimately show ?thesis by simp
    qed
  qed
qed

lemma sparseScan_bounds:
  "0 \<le> i \<Longrightarrow> 0 \<le> maxOnes \<Longrightarrow> sz \<le> int (length data) \<Longrightarrow>
   \<exists>r. sparseScan maxOnes data sz i = Some r \<and> r \<le> sz \<and> min sz maxOnes \<le> r"
proof (induction maxOnes data sz i rule: sparseScan.induct)
  case (1 maxOnes data sz i)
  show ?case
  proof (cases "i < sz - maxOnes")
    case False
    then have "sparseScan maxOnes data sz i = Some sz" by (subst sparseScan.simps) simp
    then show ?thesis by simp
  next
    case True
    have pk: "peek data i = Some (data ! nat i)"
      using True "1.prems" by (simp add: peek_Some)
    show ?thesis
    proof (cases "nOnesDensity ! unat (data ! nat i) \<ge> 3")
      case dense: True
      have "sparseScan maxOnes data sz i = sparseScan maxOnes data sz (i + 1)"
        using True pk dense by (subst sparseScan.simps) simp
      moreover from "1.IH"(1)[OF True pk dense] "1.prems"
      have "\<exists>r. sparseScan maxOnes data sz (i + 1) = Some r \<and> r \<le> sz \<and> min sz maxOnes \<le> r"
        by simp
      ultimately show ?thesis by simp
    next
      case sparse: False
      from sparseRun_Some[of i 0 maxOnes data 0] True "1.prems"
      obtain j where j: "sparseRun maxOnes data i 0 0 = Some j" by auto
      show ?thesis
      proof (cases "j \<ge> maxOnes")
        case hit: True
        have "sparseScan maxOnes data sz i = Some (max_macro i maxOnes)"
          using True pk sparse j hit by (subst sparseScan.simps) simp
        then show ?thesis using True "1.prems" by (simp add: max_macro_def)
      next
        case miss: False
        have "sparseScan maxOnes data sz i = sparseScan maxOnes data sz (i + 1)"
          using True pk sparse j miss by (subst sparseScan.simps) simp
        moreover from "1.IH"(2)[OF True pk sparse j miss] "1.prems"
        have "\<exists>r. sparseScan maxOnes data sz (i + 1) = Some r \<and> r \<le> sz \<and> min sz maxOnes \<le> r"
          by simp
        ultimately show ?thesis by simp
      qed
    qed
  qed
qed

lemma AdjustChunkSize_bounds:
  assumes "0 \<le> maxZeros" "0 \<le> maxOnes" "n \<le> int (length data)"
  shows "\<exists>n'. AdjustChunkSize maxZeros maxOnes n data c = Some n' \<and> n' \<le> n \<and>
           min n (min maxZeros maxOnes) \<le> n'"
proof (cases c)
  case True
  then show ?thesis by (simp add: AdjustChunkSize_def)
next
  case False
  from zeroScan_bounds[of 0 maxZeros n data] assms
  obtain sz where sz: "zeroScan maxZeros data n 0 = Some sz" "sz \<le> n" "min n maxZeros \<le> sz"
    by auto
  from sparseScan_bounds[of 0 maxOnes sz data] assms sz
  obtain r where r: "sparseScan maxOnes data sz 0 = Some r" "r \<le> sz" "min sz maxOnes \<le> r"
    by auto
  have "AdjustChunkSize maxZeros maxOnes n data c = Some r"
    using False sz r by (simp add: AdjustChunkSize_def)
  then show ?thesis using sz r by auto
qed

lemma sparseScan_short: "sz \<le> maxOnes \<Longrightarrow> sparseScan maxOnes data sz 0 = Some sz"
  by (subst sparseScan.simps) simp

text \<open>
  C8: with complement-byte transmission disabled, for every proposed length \<open>n \<ge> 1\<close> and
  every payload of at least \<open>n\<close> bytes, \<open>AdjustChunkSize\<close> returns (no read leaves the
  payload) a length \<open>n'\<close> with \<open>1 \<le> n' \<le> n\<close>.  The thresholds are any positive
  \<open>fMaxZeros\<close> and \<open>fMaxOnes\<close>; the link sets 23 or 30 and 90.
\<close>

theorem C8_adjust_bounds:
  assumes "1 \<le> n" "n \<le> int (length data)" "1 \<le> maxZeros" "1 \<le> maxOnes"
  shows "\<exists>n'. AdjustChunkSize maxZeros maxOnes n data False = Some n' \<and> 1 \<le> n' \<and> n' \<le> n"
proof -
  from AdjustChunkSize_bounds[of maxZeros maxOnes n data False] assms
  obtain n' where "AdjustChunkSize maxZeros maxOnes n data False = Some n'" "n' \<le> n"
    "min n (min maxZeros maxOnes) \<le> n'" by auto
  then show ?thesis using assms by auto
qed

theorem C8_adjust_bounds_witness:
  "\<exists>n'. AdjustChunkSize 23 90 100 (replicate 100 0) False = Some n' \<and> 1 \<le> n' \<and> n' \<le> 100"
  using C8_adjust_bounds[of 100 "replicate 100 0" 23 90] by simp

text \<open>
  C9: the zero-run scan with complement disabled.  Let \<open>i\<close>, with \<open>0 \<le> i < n - maxZeros\<close>,
  be the first index at which \<open>maxZeros\<close> consecutive zero bytes start.  Then the scan
  stops there with the length \<open>i + maxZeros\<close>; this is the length that
  \<open>AdjustChunkSize\<close> hands to its second scan, and its result when
  \<open>i + maxZeros \<le> maxOnes\<close>.  In particular the adaptor turns the proposed length 100 on
  one hundred zero bytes into 23 when \<open>maxZeros = 23\<close>.
\<close>

theorem C9_zero_run_scan:
  assumes "1 \<le> maxZeros" and "n \<le> int (length data)"
    and "0 \<le> i" and "i < n - maxZeros"
    and "take (nat maxZeros) (drop (nat i) data) = replicate (nat maxZeros) 0"
    and "\<forall>k. 0 \<le> k \<and> k < i \<longrightarrow>
           take (nat maxZeros) (drop (nat k) data) \<noteq> replicate (nat maxZeros) 0"
  shows "zeroScan maxZeros data n 0 = Some (i + maxZeros) \<and>
         AdjustChunkSize maxZeros maxOnes n data False = sparseScan maxOnes data (i + maxZeros) 0 \<and>
         (i + maxZeros \<le> maxOnes \<longrightarrow>
            AdjustChunkSize maxZeros maxOnes n data False = Some (i + maxZeros)) \<and>
         AdjustChunkSize 23 90 100 (replicate 100 0) False = Some 23"
proof -
  have z: "zeroScan maxZeros data n 0 = Some (i + maxZeros)"
    using zeroScan_first_run[of 0 i n maxZeros data] assms by simp
  then have a: "AdjustChunkSize maxZeros maxOnes n data False = sparseScan maxOnes data (i + maxZeros) 0"
    by (simp add: AdjustChunkSize_def)
  have e: "AdjustChunkSize 23 90 100 (replicate 100 0) False = Some 23"
    by (simp add: AdjustChunkSize_def peek_def)
  show ?thesis using z a e by (simp add: sparseScan_short)
qed

theorem C9_zero_run_scan_witness:
  "zeroScan 23 ([1, 1, 1] @ replicate 30 0) 33 0 = Some (3 + 23) \<and>
   AdjustChunkSize 23 90 33 ([1, 1, 1] @ replicate 30 0) False = Some (3 + 23)"
proof -
  let ?data = "[1, 1, 1] @ replicate 30 (0::UByte)"
  have h1: "(1::int) \<le> 23" by simp
  have h2: "(33::int) \<le> int (length ?data)" by simp
  have h3: "(0::int) \<le> 3" by simp
  have h4: "(3::int) < 33 - 23" by simp
  have h5: "take (nat 23) (drop (nat 3) ?data) = replicate (nat 23) 0"
    by (simp add: replicate_add[symmetric] del: replicate_add)
  have h6: "\<forall>k. 0 \<le> k \<and> k < (3::int) \<longrightarrow>
              take (nat 23) (drop (nat k) ?data) \<noteq> replicate (nat 23) 0"
  proof (intro allI impI)
    fix k :: int assume "0 \<le> k \<and> k < 3"
    then consider "k = 0" | "k = 1" | "k = 2" by linarith
    then have hd1: "hd (take (nat 23) (drop (nat k) ?data)) = 1"
    proof cases
      case 1 then show ?thesis by simp
    next
      case 2 then show ?thesis by simp
    next
      case 3 then show ?thesis by simp
    qed
    show "take (nat 23) (drop (nat k) ?data) \<noteq> replicate (nat 23) 0"
    proof
      assume "take (nat 23) (drop (nat k) ?data) = replicate (nat 23) 0"
      then have "hd (take (nat 23) (drop (nat k) ?data)) = hd (replicate (nat 23) (0::UByte))"
        by (rule arg_cong)
      with hd1 show False by simp
    qed
  qed
  from C9_zero_run_scan[OF h1 h2 h3 h4 h5 h6, of 90]
  show ?thesis by simp
qed

subsection \<open>The reply-length oracle\<close>

lemma byte_pair_add_or:
  "uint (a::UByte) + push_bit 8 (uint (b::UByte)) = uint a OR push_bit 8 (uint b)"
proof (rule disjunctive_add)
  fix n
  show "\<not> bit (uint a) n \<or> \<not> bit (push_bit 8 (uint b)) n"
  proof (cases "n < 8")
    case True
    then show ?thesis by (simp add: bit_push_bit_iff)
  next
    case False
    then have "\<not> bit (uint a) n" by (simp add: bit_uint_iff)
    then show ?thesis by simp
  qed
qed

lemma ExpectedReplyLength_table:
  assumes dist: "distinct (map fst (spec_opcodeClasses d))"
    and ne: "data \<noteq> []" and len: "len \<le> int (length data)"
  shows "ExpectedReplyLength d st data len = Some (spec_ReplyLengthOracle d (fTarget st) data len)"
proof -
  define opc where "opc = uint (data ! 0) AND 0xf7"
  have p0: "peek data 0 = Some (data ! 0)" using ne by (simp add: peek_def)
  have p3: "len = 4 \<Longrightarrow> peek data 3 = Some (data ! 3)" using len by (simp add: peek_def)
  have p34: "len = 5 \<Longrightarrow> peek data 3 = Some (data ! 3) \<and> peek data 4 = Some (data ! 4)"
    using len by (simp add: peek_def)
  have D: "distinct [kRCX_BeginTaskOp d, kRCX_BeginSubOp d, kRCX_DownloadOp d, kRCX_BeginFirmwareOp d, kRCX_BatteryLevelOp d, kRCX_ReadOp d, kRCX_GetVersions d, kRCX_UploadEepromOp d, kRCX_UnlockOp d, kRCX_GetMemMap d, kRCX_PollMemoryOp d, kRCX_UploadDatalogOp d]"
    using dist by (simp only: spec_opcodeClasses_def list.map fst_conv)
  note L = ExpectedReplyLength_def[of d st data, unfolded p0 option.case Let_def, folded opc_def]
  note R = spec_ReplyLengthOracle_def[of d "fTarget st" data, folded opc_def]
  have D2: "distinct [kRCX_UploadDatalogOp d, kRCX_PollMemoryOp d, kRCX_GetMemMap d, kRCX_UnlockOp d, kRCX_UploadEepromOp d, kRCX_GetVersions d, kRCX_ReadOp d, kRCX_BatteryLevelOp d, kRCX_BeginFirmwareOp d, kRCX_DownloadOp d, kRCX_BeginSubOp d, kRCX_BeginTaskOp d]"
    using distinct_rev[of "[kRCX_BeginTaskOp d, kRCX_BeginSubOp d, kRCX_DownloadOp d, kRCX_BeginFirmwareOp d, kRCX_BatteryLevelOp d, kRCX_ReadOp d, kRCX_GetVersions d, kRCX_UploadEepromOp d, kRCX_UnlockOp d, kRCX_GetMemMap d, kRCX_PollMemoryOp d, kRCX_UploadDatalogOp d]"] D by (simp only: rev.simps append.simps)
  have c_kRCX_BeginTaskOp: "opc = kRCX_BeginTaskOp d \<Longrightarrow> ?thesis"
    using D D2 p3 by (simp add: L R spec_ReplyLengthTable_def spec_opcodeClasses_def)
  have c_kRCX_BeginSubOp: "opc = kRCX_BeginSubOp d \<Longrightarrow> ?thesis"
    using D D2 p3 by (simp add: L R spec_ReplyLengthTable_def spec_opcodeClasses_def)
  have c_kRCX_DownloadOp: "opc = kRCX_DownloadOp d \<Longrightarrow> ?thesis"
    using D D2 p3 by (simp add: L R spec_ReplyLengthTable_def spec_opcodeClasses_def)
  have c_kRCX_BeginFirmwareOp: "opc = kRCX_BeginFirmwareOp d \<Longrightarrow> ?thesis"
    using D D2 p3 by (simp add: L R spec_ReplyLengthTable_def spec_opcodeClasses_def)
  have c_kRCX_BatteryLevelOp: "opc = kRCX_BatteryLevelOp d \<Longrightarrow> ?thesis"
    using D D2 p3 by (simp add: L R spec_ReplyLengthTable_def spec_opcodeClasses_def)
  have c_kRCX_ReadOp: "opc = kRCX_ReadOp d \<Longrightarrow> ?thesis"
    using D D2 p3 by (simp add: L R spec_ReplyLengthTable_def spec_opcodeClasses_def)
  have c_kRCX_GetVersions: "opc = kRCX_GetVersions d \<Longrightarrow> ?thesis"
    using D D2 p3 by (simp add: L R spec_ReplyLengthTable_def spec_opcodeClasses_def)
  have c_kRCX_UploadEepromOp: "opc = kRCX_UploadEepromOp d \<Longrightarrow> ?thesis"
    using D D2 p3 by (simp add: L R spec_ReplyLengthTable_def spec_opcodeClasses_def)
  have c_kRCX_UnlockOp: "opc = kRCX_UnlockOp d \<Longrightarrow> ?thesis"
    using D D2 p3 by (simp add: L R spec_ReplyLengthTable_def spec_opcodeClasses_def)
  have c_kRCX_GetMemMap: "opc = kRCX_GetMemMap d \<Longrightarrow> ?thesis"
    using D D2 p3 by (simp add: L R spec_ReplyLengthTable_def spec_opcodeClasses_def)
  have c_kRCX_PollMemoryOp: "opc = kRCX_PollMemoryOp d \<Longrightarrow> ?thesis"
    using D D2 p3 by (simp add: L R spec_ReplyLengthTable_def spec_opcodeClasses_def)
  have c_kRCX_UploadDatalogOp: "opc = kRCX_UploadDatalogOp d \<Longrightarrow> ?thesis"
    using D D2 p34
    by (simp add: L R spec_ReplyLengthTable_def spec_opcodeClasses_def flip: byte_pair_add_or)
  have c_other: "opc \<noteq> kRCX_BeginTaskOp d \<and> opc \<noteq> kRCX_BeginSubOp d \<and> opc \<noteq> kRCX_DownloadOp d \<and> opc \<noteq> kRCX_BeginFirmwareOp d \<and> opc \<noteq> kRCX_BatteryLevelOp d \<and> opc \<noteq> kRCX_ReadOp d \<and> opc \<noteq> kRCX_GetVersions d \<and> opc \<noteq> kRCX_UploadEepromOp d \<and> opc \<noteq> kRCX_UnlockOp d \<and> opc \<noteq> kRCX_GetMemMap d \<and> opc \<noteq> kRCX_PollMemoryOp d \<and> opc \<noteq> kRCX_UploadDatalogOp d \<Longrightarrow> ?thesis"
    by (simp add: L R spec_ReplyLengthTable_def spec_opcodeClasses_def)
  show ?thesis using c_kRCX_BeginTaskOp c_kRCX_BeginSubOp c_kRCX_DownloadOp c_kRCX_BeginFirmwareOp c_kRCX_BatteryLevelOp c_kRCX_ReadOp c_kRCX_GetVersions c_kRCX_UploadEepromOp c_kRCX_UnlockOp c_kRCX_GetMemMap c_kRCX_PollMemoryOp c_kRCX_UploadDatalogOp c_other by blast
qed

text \<open>
  C4: \<open>ExpectedReplyLength\<close> agrees with the dispatch table of the specification, keyed
  on \<open>opcode & 0xF7\<close>, for every command whose bytes are there (\<open>data\<close> holds the
  opcode and at least \<open>length\<close> bytes), provided the twelve case labels, \<open>kRCX_Message\<close>
  and \<open>kRCX_Remote\<close> are pairwise different constants.  Its value depends on the link
  through the target only; every opcode without a case label, \<open>kRCX_Message\<close> and
  \<open>kRCX_Remote\<close> among them, yields 1.
\<close>

theorem C4_ExpectedReplyLength_table:
  assumes "distinct (map fst (spec_opcodeClasses d) @ [kRCX_Message d, kRCX_Remote d])"
    and "data \<noteq> []" and "len \<le> int (length data)"
  shows "ExpectedReplyLength d st data len = Some (spec_ReplyLengthOracle d (fTarget st) data len) \<and>
         (fTarget st' = fTarget st \<longrightarrow>
            ExpectedReplyLength d st' data len = ExpectedReplyLength d st data len) \<and>
         (uint (data ! 0) AND 0xF7 \<notin> fst ` set (spec_opcodeClasses d) \<longrightarrow>
            ExpectedReplyLength d st data len = Some 1) \<and>
         (uint (data ! 0) AND 0xF7 = kRCX_Message d \<or> uint (data ! 0) AND 0xF7 = kRCX_Remote d \<longrightarrow>
            ExpectedReplyLength d st data len = Some 1)"
proof -
  have dist: "distinct (map fst (spec_opcodeClasses d))" using assms(1) by simp
  have eq: "\<And>s. ExpectedReplyLength d s data len = Some (spec_ReplyLengthOracle d (fTarget s) data len)"
    using ExpectedReplyLength_table[OF dist assms(2) assms(3)] .
  have dflt: "uint (data ! 0) AND 0xF7 \<notin> fst ` set (spec_opcodeClasses d) \<Longrightarrow>
              spec_ReplyLengthOracle d (fTarget st) data len = 1"
  proof -
    assume "uint (data ! 0) AND 0xF7 \<notin> fst ` set (spec_opcodeClasses d)"
    then have "map_of (spec_opcodeClasses d) (uint (data ! 0) AND 0xF7) = None"
      by (simp add: map_of_eq_None_iff)
    then show ?thesis by (simp add: spec_ReplyLengthOracle_def spec_ReplyLengthTable_def)
  qed
  have msg: "kRCX_Message d \<notin> fst ` set (spec_opcodeClasses d)"
    and rem: "kRCX_Remote d \<notin> fst ` set (spec_opcodeClasses d)"
    using assms(1) by auto
  show ?thesis using eq dflt msg rem by auto
qed

theorem C4_ExpectedReplyLength_table_witness:
  "ExpectedReplyLength sampleDefs (sampleLink\<lparr>fTarget := kRCX_RCX2Target\<rparr>) [0x15] 1 = Some 9 \<and>
   ExpectedReplyLength sampleDefs sampleLink [0x63, 0, 0, 5] 4 = Some 6 \<and>
   ExpectedReplyLength sampleDefs sampleLink [0xa4, 0, 0, 0x10, 0x00] 5 = Some 49 \<and>
   ExpectedReplyLength sampleDefs sampleLink [0xf7, 1] 2 = Some 1"
proof -
  have dist: "distinct (map fst (spec_opcodeClasses sampleDefs) @
                [kRCX_Message sampleDefs, kRCX_Remote sampleDefs])"
    by (simp add: spec_opcodeClasses_def sampleDefs_def)
  have k: "map_of (spec_opcodeClasses sampleDefs) 0x15 = Some GetVersions"
    "map_of (spec_opcodeClasses sampleDefs) 0x63 = Some PollMemory"
    "map_of (spec_opcodeClasses sampleDefs) 0xa4 = Some UploadDatalog"
    "map_of (spec_opcodeClasses sampleDefs) 0xf7 = None"
    by (simp_all add: spec_opcodeClasses_def sampleDefs_def)
  have a: "ExpectedReplyLength sampleDefs (sampleLink\<lparr>fTarget := kRCX_RCX2Target\<rparr>) [0x15] 1 = Some 9"
    using C4_ExpectedReplyLength_table[OF dist, of "[0x15]" 1 "sampleLink\<lparr>fTarget := kRCX_RCX2Target\<rparr>"] k
    by (simp add: spec_ReplyLengthOracle_def spec_ReplyLengthTable_def)
  have b: "ExpectedReplyLength sampleDefs sampleLink [0x63, 0, 0, 5] 4 = Some 6"
    using C4_ExpectedReplyLength_table[OF dist, of "[0x63, 0, 0, 5]" 4 sampleLink] k
    by (simp add: spec_ReplyLengthOracle_def spec_ReplyLengthTable_def)
  have c: "ExpectedReplyLength sampleDefs sampleLink [0xa4, 0, 0, 0x10, 0x00] 5 = Some 49"
    using C4_ExpectedReplyLength_table[OF dist, of "[0xa4, 0, 0, 0x10, 0x00]" 5 sampleLink] k
    by (simp add: spec_ReplyLengthOracle_def spec_ReplyLengthTable_def)
  have e: "ExpectedReplyLength sampleDefs sampleLink [0xf7, 1] 2 = Some 1"
    using C4_ExpectedReplyLength_table[OF dist, of "[0xf7, 1]" 2 sampleLink] k
    by (simp add: spec_ReplyLengthOracle_def spec_ReplyLengthTable_def)
  show ?thesis using a b c e by simp
qed

subsection \<open>The firmware checksum\<close>

lemma Checksum_loop_sum:
  "0 \<le> len \<Longrightarrow> len \<le> int (length data) \<Longrightarrow>
   Checksum_loop data len check = Some (check + sum_list (map ucast (take (nat len) data)))"
proof (induction data len check rule: Checksum_loop.induct)
  case (1 data len check)
  show ?case
  proof (cases "len = 0")
    case True
    then show ?thesis by (subst Checksum_loop.simps) simp
  next
    case False
    with "1.prems" obtain b rest where d: "data = b # rest" by (cases data) auto
    have pk: "peek data 0 = Some b" by (simp add: peek_def d)
    have "Checksum_loop data len check = Checksum_loop (drop 1 data) (len - 1) (check + ucast b)"
      using False pk by (subst Checksum_loop.simps) simp
    also have "\<dots> = Some (check + ucast b + sum_list (map ucast (take (nat (len - 1)) (drop 1 data))))"
      using "1.IH"[OF False pk] "1.prems" False d by simp
    also have "take (nat len) data = b # take (nat (len - 1)) (drop 1 data)"
      using False "1.prems" d by (simp add: take_Cons' nat_diff_distrib)
    then have "check + ucast b + sum_list (map ucast (take (nat (len - 1)) (drop 1 data)))
        = check + sum_list (map ucast (take (nat len) data))"
      by (simp add: add.assoc)
    finally show ?thesis .
  qed
qed

lemma sum_bytes_bound: "sum_list (map uint (xs :: UByte list)) \<le> 255 * int (length xs)"
proof (induction xs)
  case Nil
  then show ?case by simp
next
  case (Cons x xs)
  have "uint x \<le> 255" using uint_bounded[of x] by simp
  with Cons show ?case by simp
qed

lemma sum_bytes_nonneg: "0 \<le> sum_list (map uint (xs :: UByte list))"
  by (induction xs) auto

lemma word_sum_bytes:
  "(sum_list (map ucast (xs :: UByte list)) :: 32 word) = word_of_int (sum_list (map uint xs))"
  by (induction xs) (auto simp: word_of_int_uint)

lemma low_bytes:
  fixes c :: "32 word"
  shows "uint (ucast c :: UByte) + 256 * uint (ucast (signed_drop_bit 8 c) :: UByte) = uint c mod 2 ^ 16"
proof -
  have e: "(ucast (signed_drop_bit 8 c) :: UByte) = ucast (drop_bit 8 c)"
    by (rule bit_word_eqI) (auto simp: bit_ucast_iff bit_signed_drop_bit_iff bit_drop_bit_eq)
  have lo: "uint (ucast c :: UByte) = uint c mod 256"
    by (simp add: unsigned_ucast_eq take_bit_eq_mod)
  have hi: "uint (ucast (drop_bit 8 c) :: UByte) = (uint c div 256) mod 256"
    by (simp add: unsigned_ucast_eq take_bit_eq_mod drop_bit_eq_div uint_div_distrib)
  have "uint c mod (256 * 256) = 256 * (uint c div 256 mod 256) + uint c mod 256"
    by (rule zmod_zmult2_eq) simp
  then have "uint c mod 256 + 256 * ((uint c div 256) mod 256) = uint c mod 65536"
    by simp
  then show ?thesis using e lo hi by simp
qed


lemma Checksum_value:
  assumes "0 \<le> n" and "n \<le> int (length data)" and "n \<le> 0x4c00"
  shows "\<exists>check. Checksum data n = Some check \<and>
           sint check = sum_list (map uint (take (nat n) data)) \<and>
           uint check = sum_list (map uint (take (nat n) data))"
proof -
  let ?S = "sum_list (map uint (take (nat n) data))"
  have c: "Checksum data n = Some (word_of_int ?S)"
    using Checksum_loop_sum[OF assms(1) assms(2), of 0]
    by (simp add: Checksum_def word_sum_bytes)
  have "?S \<le> 255 * int (length (take (nat n) data))" by (rule sum_bytes_bound)
  also have "\<dots> \<le> 255 * 0x4c00" using assms by simp
  finally have ub: "?S < 2 ^ 31" by simp
  have lb: "0 \<le> ?S" by (rule sum_bytes_nonneg)
  have u: "uint (word_of_int ?S :: 32 word) = ?S"
    using ub lb by (simp add: uint_word_of_int)
  have s: "sint (word_of_int ?S :: 32 word) = ?S"
    using ub lb by (simp add: sint_uint u signed_take_bit_int_eq_self)
  show ?thesis using c u s by simp
qed

subsection \<open>The session: \<open>Open\<close>, \<open>Sync\<close>, \<open>Send\<close> and \<open>Close\<close>\<close>

lemmas sample_defs = sampleDefs_def sampleEnv_def sampleLink_def sampleTransport_def
  RCX_Link_ctor_def kFragmentChunk_def kFirmwareChunk_def kDownloadWaitTime_def kMaxOnes_def
  kMaxZerosUSB_def kMaxZerosSerial_def

lemmas open_defs = Open_def userConfPortName_def etcConfPortName_def CheckPrefix_opt_def
  tolower_def Open_transport_def Transport_Open_def kRCX_OK_def RCX_ERROR_def

lemmas send_defs = Send_def ExpectedReplyLength_def GetLength_def peek_def Transport_Send_def

lemma sampleOpened_eval:
  "sampleOpened = Some (kRCX_OK,
     sampleLink\<lparr>fTarget := kRCX_RCXTarget, gUSB := True,
       fTransport := Some ((sampleTransport USBTowerPipe)\<lparr>tDevName := Some []\<rparr>),
       fMaxZeros := 23, fSynced := False, fResult := kRCX_OK\<rparr>)"
  by (simp add: sampleOpened_def open_defs sample_defs)

lemma Send_cases:
  assumes "Send d st cmd retry timeout = Some (r, st')"
  shows "(r = Inl kRCX_RequestError \<and> st' = st) \<or>
         (\<exists>t rq reply. fTransport st = Some t \<and>
            rqCmd rq = cmd \<and> rqRetry rq = retry \<and> rqTimeout rq = timeout \<and>
            r = fst (tOracle t (length (tSent t)) rq) \<and>
            st' = st\<lparr>fTransport := Some (t\<lparr>tSent := tSent t @ [rq]\<rparr>), fReply := reply, fResult := r\<rparr>)"
proof -
  obtain expected where e: "ExpectedReplyLength d st (GetBody d cmd) (GetLength d cmd) = Some expected"
    using assms by (auto simp: Send_def split: option.splits)
  show ?thesis
  proof (cases "GetLength d cmd > kMaxCmdLength d \<or> expected > kMaxReplyLength d")
    case True
    then show ?thesis using assms e by (auto simp: Send_def)
  next
    case False
    then obtain t where t: "fTransport st = Some t"
      using assms e by (auto simp: Send_def split: option.splits)
    let ?rq = "\<lparr>rqCmd = cmd, rqLength = GetLength d cmd, rqExpected = expected,
                rqRetry = retry, rqTimeout = timeout\<rparr>"
    obtain res reply where o: "tOracle t (length (tSent t)) ?rq = (res, reply)"
      by (cases "tOracle t (length (tSent t)) ?rq") auto
    have "Send d st cmd retry timeout =
            Some (res, st\<lparr>fTransport := Some (t\<lparr>tSent := tSent t @ [?rq]\<rparr>),
                          fReply := reply, fResult := res\<rparr>)"
      using False e t o by (simp add: Send_def Transport_Send_def)
    with assms have r: "r = res"
      and st': "st' = st\<lparr>fTransport := Some (t\<lparr>tSent := tSent t @ [?rq]\<rparr>),
                        fReply := reply, fResult := r\<rparr>"
      by auto
    have "fTransport st = Some t \<and> rqCmd ?rq = cmd \<and> rqRetry ?rq = retry \<and> rqTimeout ?rq = timeout \<and>
          r = fst (tOracle t (length (tSent t)) ?rq) \<and>
          st' = st\<lparr>fTransport := Some (t\<lparr>tSent := tSent t @ [?rq]\<rparr>), fReply := reply, fResult := r\<rparr>"
      using t o r st' by simp
    then show ?thesis by blast
  qed
qed

lemma Send_fSynced:
  "Send d st cmd retry timeout = Some (r, st') \<Longrightarrow> fSynced st' = fSynced st"
  by (drule Send_cases) auto

lemma Sync_fSynced:
  assumes "Sync d st = Some (r, st')" and "\<not> RCX_ERROR r"
  shows "fSynced st'"
  using assms
  by (auto simp: Sync_def split: if_splits option.splits prod.splits)

lemma Close_fSynced: "fSynced (Close st) = fSynced st"
  by (simp add: Close_def split: option.splits)

lemma Open_transport_OK:
  assumes "Open_transport d st t target devName options = Some (kRCX_OK, st')"
  shows "\<not> fSynced st' \<and> fTransport st' \<noteq> None"
  using assms
  by (auto simp: Open_transport_def Transport_Open_def Let_def RCX_ERROR_def kRCX_OK_def
      split: if_splits option.splits prod.splits dest!: Send_cases)

lemma Inl_neq_OK: "Inl e \<noteq> kRCX_OK" "kRCX_OK \<noteq> Inl e"
  by (simp_all add: kRCX_OK_def)

lemma Open_OK:
  assumes "Open d env st target portName options = Some (kRCX_OK, st')"
  shows "\<not> fSynced st' \<and> fTransport st' \<noteq> None"
  using assms
  by (auto simp: Open_def Let_def Inl_neq_OK
      split: if_splits option.splits dest: Open_transport_OK)

lemma sampleSynced_eval:
  "\<exists>s. sampleSynced = Some (kRCX_OK, s) \<and> fSynced s \<and> fSynced (Close s)"
  by (simp add: sampleSynced_def sampleOpened_eval Sync_def send_defs sample_defs
      kRCX_OK_def RCX_ERROR_def Close_def)

lemma sampleSendFailed_eval:
  "\<exists>s. sampleSendFailed = Some (Inl (kRCX_TransportError (- 2)), s) \<and> fSynced s"
  by (simp add: sampleSendFailed_def sampleFlakyEnv_def open_defs Sync_def send_defs sample_defs)

lemma sampleFlaky_run:
  "\<exists>s1 s2 s3.
     Open sampleDefs sampleFlakyEnv sampleLink kRCX_RCXTarget (Some ''usb'') 0 = Some (kRCX_OK, s1) \<and>
     Sync sampleDefs s1 = Some (kRCX_OK, s2) \<and>
     Send sampleDefs s2 MakePing True 0 = Some (Inl (kRCX_TransportError (- 2)), s3)"
  by (simp add: sampleFlakyEnv_def open_defs Sync_def send_defs sample_defs)

lemma Open_transport_traffic:
  assumes "Open_transport d st t target devName options = Some (r, st')"
    and "tSent t = []" and "fTarget st = target"
  shows "fTransport st' = None \<or>
         (\<exists>t'. fTransport st' = Some t' \<and>
            (tSent t' = [] \<or>
             (target = kRCX_SpyboticsTarget \<and>
              (\<exists>rq. tSent t' = [rq] \<and> rqCmd rq = SpybotPingOffCmd \<and> rqRetry rq))))"
proof (cases "tOpenResult t = kRCX_OK")
  case False
  then show ?thesis using assms
    by (auto simp: Open_transport_def Transport_Open_def)
next
  case True
  let ?t1 = "t\<lparr>tOmitHeader := fOmitHeader st, tDevName := devName\<rparr>"
  let ?st1 = "st\<lparr>fTransport := Some ?t1\<rparr>"
  show ?thesis
  proof (cases "target = kRCX_SpyboticsTarget")
    case False
    then show ?thesis using assms True
      by (auto simp: Open_transport_def Transport_Open_def Let_def)
  next
    case spy: True
    obtain r2 st2 where s: "Send d ?st1 SpybotPingOffCmd True (kDefaultTimeout d) = Some (r2, st2)"
      and fin: "fTransport st' = fTransport st2"
      using assms True spy
      by (auto simp: Open_transport_def Transport_Open_def Let_def SpybotPingOffCmd_def
          split: option.splits if_splits)
    from Send_cases[OF s] show ?thesis
    proof
      assume "r2 = Inl kRCX_RequestError \<and> st2 = ?st1"
      then show ?thesis using fin assms(2) by simp
    next
      assume "\<exists>t0 rq reply. fTransport ?st1 = Some t0 \<and>
            rqCmd rq = SpybotPingOffCmd \<and> rqRetry rq = True \<and> rqTimeout rq = kDefaultTimeout d \<and>
            r2 = fst (tOracle t0 (length (tSent t0)) rq) \<and>
            st2 = ?st1\<lparr>fTransport := Some (t0\<lparr>tSent := tSent t0 @ [rq]\<rparr>), fReply := reply, fResult := r2\<rparr>"
      then obtain t0 rq reply where "fTransport ?st1 = Some t0" "rqCmd rq = SpybotPingOffCmd" "rqRetry rq"
        "st2 = ?st1\<lparr>fTransport := Some (t0\<lparr>tSent := tSent t0 @ [rq]\<rparr>), fReply := reply, fResult := r2\<rparr>"
        by blast
      then show ?thesis using fin assms(2) spy by auto
    qed
  qed
qed

lemma Open_traffic:
  assumes "Open d env st target portName options = Some (r, st')"
  shows "fTransport st' = None \<or> fTransport st' = fTransport st \<or>
         (\<exists>t. fTransport st' = Some t \<and>
            (tSent t = [] \<or>
             (target = kRCX_SpyboticsTarget \<and>
              (\<exists>rq. tSent t = [rq] \<and> rqCmd rq = SpybotPingOffCmd \<and> rqRetry rq))))"
  using assms
  by (auto simp: Open_def Let_def split: if_splits option.splits
      dest!: Open_transport_traffic)

lemma sampleSpybotOpened_eval:
  "\<exists>s t rq. sampleSpybotOpened = Some (kRCX_OK, s) \<and> fTransport s = Some t \<and>
     tSent t = [rq] \<and> rqCmd rq = SpybotPingOffCmd"
  by (simp add: sampleSpybotOpened_def open_defs send_defs sample_defs SpybotPingOffCmd_def)

text \<open>
  C2, as the claim states it, fails: on the instance, after \<open>Open\<close>, a successful \<open>Sync\<close>
  and \<open>Close\<close> the flag \<open>fSynced\<close> is still true, and it is still true after a
  \<open>Send\<close> that returned an error.
\<close>

theorem C2_counterexample:
  "(case sampleSynced of
      None \<Rightarrow> False
    | Some (r, s) \<Rightarrow> \<not> RCX_ERROR r \<and> fSynced (Close s)) \<and>
   (case sampleSendFailed of
      None \<Rightarrow> False
    | Some (r, s) \<Rightarrow> RCX_ERROR r \<and> fSynced s)"
proof -
  from sampleSynced_eval obtain s where a: "sampleSynced = Some (kRCX_OK, s)" "fSynced (Close s)"
    by blast
  from sampleSendFailed_eval obtain s' where
    b: "sampleSendFailed = Some (Inl (kRCX_TransportError (- 2)), s')" "fSynced s'"
    by blast
  show ?thesis by (simp add: a b RCX_ERROR_def kRCX_OK_def)
qed

text \<open>
  C2, amended: \<open>fSynced\<close> is true after every successful \<open>Sync\<close> and false after every
  successful \<open>Open\<close>; \<open>Close\<close> leaves it as it is, and so does every \<open>Send\<close> that
  returns, with an error or without.
\<close>

theorem C2_synced_flag:
  "(Sync d st = Some (r, st1) \<and> \<not> RCX_ERROR r \<longrightarrow> fSynced st1) \<and>
   (Open d env st target portName options = Some (kRCX_OK, st2) \<longrightarrow> \<not> fSynced st2) \<and>
   fSynced (Close st) = fSynced st \<and>
   (Send d st cmd retry timeout = Some (r3, st3) \<longrightarrow> fSynced st3 = fSynced st)"
  using Sync_fSynced[of d st r st1] Open_OK[of d env st target portName options st2]
    Close_fSynced[of st] Send_fSynced[of d st cmd retry timeout r3 st3]
  by blast

theorem C2_synced_flag_witness:
  "\<exists>s1 s2 s3.
     Open sampleDefs sampleFlakyEnv sampleLink kRCX_RCXTarget (Some ''usb'') 0 = Some (kRCX_OK, s1) \<and>
     \<not> fSynced s1 \<and>
     Sync sampleDefs s1 = Some (kRCX_OK, s2) \<and> \<not> RCX_ERROR kRCX_OK \<and> fSynced s2 \<and>
     fSynced (Close s2) \<and>
     Send sampleDefs s2 MakePing True 0 = Some (Inl (kRCX_TransportError (- 2)), s3) \<and> fSynced s3"
proof -
  from sampleFlaky_run obtain s1 s2 s3 where
    o: "Open sampleDefs sampleFlakyEnv sampleLink kRCX_RCXTarget (Some ''usb'') 0 = Some (kRCX_OK, s1)"
    and y: "Sync sampleDefs s1 = Some (kRCX_OK, s2)"
    and e: "Send sampleDefs s2 MakePing True 0 = Some (Inl (kRCX_TransportError (- 2)), s3)"
    by blast
  have ok: "\<not> RCX_ERROR kRCX_OK" by (simp add: RCX_ERROR_def kRCX_OK_def)
  have 1: "\<not> fSynced s1"
    using C2_synced_flag[of sampleDefs sampleLink _ _ sampleFlakyEnv kRCX_RCXTarget "Some ''usb''" 0 s1] o
    by blast
  have 2: "fSynced s2"
    using C2_synced_flag[of sampleDefs s1 kRCX_OK s2] y ok by blast
  have 3: "fSynced (Close s2)"
    using C2_synced_flag[of sampleDefs s2] 2 by blast
  have 4: "fSynced s3"
    using C2_synced_flag[of sampleDefs s2 _ _ _ _ _ _ _ MakePing True 0 "Inl (kRCX_TransportError (- 2))" s3] e 2
    by blast
  show ?thesis using o y e ok 1 2 3 4 by blast
qed

text \<open>
  C3, as the claim states it, fails: on the instance, \<open>Open\<close> on a Spybotics target
  returns \<open>kRCX_OK\<close> after it has handed one command, the one that turns off pinging,
  to the transport.
\<close>

theorem C3_counterexample:
  "(case sampleSpybotOpened of
      None \<Rightarrow> False
    | Some (r, s) \<Rightarrow>
        r = kRCX_OK \<and>
        (case fTransport s of
           None \<Rightarrow> False
         | Some t \<Rightarrow> map rqCmd (tSent t) = [SpybotPingOffCmd]))"
proof -
  from sampleSpybotOpened_eval obtain s t rq where
    a: "sampleSpybotOpened = Some (kRCX_OK, s)" "fTransport s = Some t"
       "tSent t = [rq]" "rqCmd rq = SpybotPingOffCmd"
    by blast
  show ?thesis by (simp add: a)
qed

text \<open>
  C3, amended: for every target, device name and options, an \<open>Open\<close> that returns
  \<open>kRCX_OK\<close> leaves a transport in place; when \<open>Open\<close> returns, the link has no
  transport, or the one it had before, or a new one that has been handed no request,
  or, on a Spybotics target only, a new one that has been handed exactly one request:
  the command that turns off pinging, sent with retry.  So \<open>Open\<close> itself issues no
  wire traffic for any target other than Spybotics.
\<close>

theorem C3_open_wire_traffic:
  assumes "Open d env st target portName options = Some (r, st')"
  shows "(r = kRCX_OK \<longrightarrow> fTransport st' \<noteq> None) \<and>
         (fTransport st' = None \<or> fTransport st' = fTransport st \<or>
          (\<exists>t. fTransport st' = Some t \<and>
             (tSent t = [] \<or>
              (target = kRCX_SpyboticsTarget \<and>
               (\<exists>rq. tSent t = [rq] \<and> rqCmd rq = SpybotPingOffCmd \<and> rqRetry rq)))))"
  using Open_traffic[OF assms] Open_OK[of d env st target portName options st'] assms
  by blast

theorem C3_open_wire_traffic_witness:
  "\<exists>s t. Open sampleDefs sampleEnv sampleLink kRCX_RCXTarget (Some ''usb'') 0 = Some (kRCX_OK, s) \<and>
     fTransport s = Some t \<and> tSent t = []"
proof -
  obtain s where o: "Open sampleDefs sampleEnv sampleLink kRCX_RCXTarget (Some ''usb'') 0 = Some (kRCX_OK, s)"
    using sampleOpened_eval by (simp add: sampleOpened_def)
  have n: "fTransport sampleLink = None" by (simp add: sample_defs)
  from C3_open_wire_traffic[OF o] n
  obtain t where "fTransport s = Some t" "tSent t = []" by auto
  with o show ?thesis by blast
qed

subsection \<open>The chunk loop\<close>

lemma ExpectedReplyLength_total:
  assumes "data \<noteq> []" and "len \<le> int (length data)"
  shows "\<exists>e. ExpectedReplyLength d st data len = Some e"
proof -
  have p0: "peek data 0 = Some (data ! 0)" using assms by (simp add: peek_def)
  have p3: "len = 4 \<Longrightarrow> peek data 3 = Some (data ! 3)" using assms by (simp add: peek_def)
  have p34: "len = 5 \<Longrightarrow> peek data 3 = Some (data ! 3) \<and> peek data 4 = Some (data ! 4)"
    using assms by (simp add: peek_def)
  show ?thesis
    using p3 p34 unfolding ExpectedReplyLength_def p0 by (simp add: Let_def)
qed

lemma Send_total:
  assumes "GetBody d cmd \<noteq> []" and "fTransport st = Some t"
  shows "\<exists>r st'. Send d st cmd retry timeout = Some (r, st')"
proof -
  from ExpectedReplyLength_total[OF assms(1), of "GetLength d cmd" d st]
  obtain e where e: "ExpectedReplyLength d st (GetBody d cmd) (GetLength d cmd) = Some e"
    by (auto simp: GetLength_def)
  show ?thesis using e assms(2)
    by (simp add: Send_def Transport_Send_def split: prod.splits)
qed

lemma sameSettings_refl: "sameSettings st st"
  by (simp add: sameSettings_def)

lemma sameSettings_trans: "sameSettings a b \<Longrightarrow> sameSettings b c \<Longrightarrow> sameSettings a c"
  by (simp add: sameSettings_def)

lemma Send_frame:
  assumes "Send d st cmd retry timeout = Some (r, st1)" and "fTransport st = Some t"
  shows "sameSettings st st1 \<and> fDownloadSoFar st1 = fDownloadSoFar st \<and>
         progressCalls st1 = progressCalls st \<and>
         (\<exists>t1. fTransport st1 = Some t1 \<and> tOracle t1 = tOracle t \<and>
            tComplementData t1 = tComplementData t \<and>
            ((r = Inl kRCX_RequestError \<and> tSent t1 = tSent t) \<or>
             (\<exists>rq. tSent t1 = tSent t @ [rq] \<and> rqCmd rq = cmd \<and>
                   r = fst (tOracle t (length (tSent t)) rq))))"
  using Send_cases[OF assms(1)] assms(2)
  by (auto simp: sameSettings_def)

lemma IncrementProgress_frame:
  assumes "IncrementProgress cb st delta = (continue, st2)"
  shows "sameSettings st st2 \<and> fDownloadSoFar st2 = int32 (fDownloadSoFar st + delta) \<and>
         fTransport st2 = fTransport st \<and>
         (fDownloadTotal st = 0 \<longrightarrow> continue \<and> progressCalls st2 = progressCalls st) \<and>
         ((\<forall>a b c. cb a b c) \<longrightarrow> continue)"
  using assms
  by (auto simp: IncrementProgress_def Let_def sameSettings_def split: if_splits)

lemma Download_loop_done:
  "\<not> 0 < remain \<Longrightarrow> Download_loop d cb chunk st data remain seq = Some (kRCX_OK, st)"
  by (subst Download_loop.simps) simp

lemma Download_loop_step:
  fixes seq :: UShort
  defines "seq1 \<equiv> \<lambda>remain chunk st seq.
             (if remain \<le> chunk \<and> (\<not> gQuiet st \<or> gProgramMode st) then 0 else seq :: UShort)"
  assumes "0 < remain" and "fTransport st = Some t"
    and "AdjustChunkSize (fMaxZeros st) (fMaxOnes st) (if remain \<le> chunk then remain else chunk)
           data (tComplementData t) = Some n'"
  shows "Download_loop d cb chunk st data remain seq =
           (case Send d st (MakeDownload (seq1 remain chunk st seq) data (of_int n')) True
                   (fDownloadWaitTime st) of
              None \<Rightarrow> None
            | Some (result, st1) \<Rightarrow>
                if RCX_ERROR result then Some (result, st1)
                else if n' < 0 then None
                else
                  (case IncrementProgress cb st1 n' of
                     (continue, st2) \<Rightarrow>
                       if \<not> continue then Some (Inl kRCX_AbortError, st2)
                       else Download_loop d cb chunk st2 (drop (nat n') data) (remain - n')
                              (seq1 remain chunk st seq + 1)))"
  using assms(2-) unfolding seq1_def by (subst Download_loop.simps) (auto simp: Let_def)

lemma not_error_OK: "\<not> RCX_ERROR kRCX_OK"
  by (simp add: RCX_ERROR_def kRCX_OK_def)

lemma unat_of_int_UShort: "0 \<le> n \<Longrightarrow> n < 65536 \<Longrightarrow> unat (of_int n :: UShort) = nat n"
  by (simp add: unat_eq_nat_uint uint_word_of_int)

lemma Send_fits:
  assumes s: "Send d st (MakeDownload seq dat n) retry timeout = Some (r, st1)"
    and f: "downloadFits d (fTarget st) chunk" and n: "unat n \<le> nat chunk"
    and t: "fTransport st = Some t"
    and o: "\<forall>k rq. \<not> RCX_ERROR (fst (tOracle t k rq))"
  shows "\<not> RCX_ERROR r"
proof -
  let ?cmd = "MakeDownload seq dat n"
  obtain e where e: "ExpectedReplyLength d st (GetBody d ?cmd) (GetLength d ?cmd) = Some e"
    using s by (auto simp: Send_def split: option.splits)
  have "GetLength d ?cmd \<le> kMaxCmdLength d \<and> e \<le> kMaxReplyLength d"
    using f n e unfolding downloadFits_def by blast
  then have "\<exists>rq. r = fst (tOracle t (length (tSent t)) rq)"
    using s e t
    by (auto simp: Send_def Transport_Send_def split: prod.splits) (metis fst_conv)
  then show ?thesis using o by auto
qed

lemma AdjustChunkSize_bounds':
  assumes "0 \<le> maxZeros" "0 \<le> maxOnes" "n \<le> int (length data)"
  shows "\<exists>n'. AdjustChunkSize maxZeros maxOnes n data c = Some n' \<and> n' \<le> n \<and>
           min n (min maxZeros maxOnes) \<le> n'"
  using AdjustChunkSize_bounds[OF assms] .

lemma Download_loop_run:
  assumes chunk: "1 \<le> chunk"
    and body: "\<forall>seq dat n. GetBody d (MakeDownload seq dat n) \<noteq> []"
  shows "fTransport st = Some t \<Longrightarrow> 1 \<le> fMaxZeros st \<Longrightarrow> 1 \<le> fMaxOnes st \<Longrightarrow>
    remain = int (length data) \<Longrightarrow>
    \<exists>r st' t' new. Download_loop d cb chunk st data remain seq = Some (r, st') \<and>
      sameSettings st st' \<and> fTransport st' = Some t' \<and> tOracle t' = tOracle t \<and>
      tComplementData t' = tComplementData t \<and> tSent t' = tSent t @ new \<and>
      (chunk < 65536 \<longrightarrow>
         (\<exists>m. concat (map (\<lambda>rq. dlBytes (rqCmd rq)) new) = take m data) \<and>
         (\<forall>rq\<in>set new. dlBytes (rqCmd rq) \<noteq> [] \<and> int (length (dlBytes (rqCmd rq))) \<le> chunk) \<and>
         (r = kRCX_OK \<longrightarrow> concat (map (\<lambda>rq. dlBytes (rqCmd rq)) new) = data)) \<and>
      (downloadFits d (fTarget st) chunk \<and> (\<forall>k rq. \<not> RCX_ERROR (fst (tOracle t k rq))) \<and>
         (\<forall>a b c. cb a b c) \<longrightarrow> r = kRCX_OK)"
proof (induction "nat remain" arbitrary: st t data remain seq rule: less_induct)
  case less
  note tr = \<open>fTransport st = Some t\<close> and len = \<open>remain = int (length data)\<close>
  show ?case
  proof (cases "0 < remain")
    case False
    have "Download_loop d cb chunk st data remain seq = Some (kRCX_OK, st)"
      using False by (rule Download_loop_done)
    moreover have "remain = 0" "data = []" using False len by auto
    ultimately show ?thesis
      using tr by (auto simp: sameSettings_refl intro!: exI[of _ "[]"])
  next
    case True
    let ?n = "if remain \<le> chunk then remain else chunk"
    let ?seq1 = "if remain \<le> chunk \<and> (\<not> gQuiet st \<or> gProgramMode st) then 0 else seq"
    have n1: "1 \<le> ?n" "?n \<le> remain" "?n \<le> chunk" using True chunk by auto
    from AdjustChunkSize_bounds'[of "fMaxZeros st" "fMaxOnes st" ?n data "tComplementData t"]
      less.prems n1
    obtain n' where adj: "AdjustChunkSize (fMaxZeros st) (fMaxOnes st) ?n data (tComplementData t) = Some n'"
      and n': "1 \<le> n'" "n' \<le> ?n" by auto
    let ?cmd = "MakeDownload ?seq1 data (of_int n')"
    note step = Download_loop_step[OF True tr adj, of d cb seq]
    from Send_total[of d ?cmd st t True "fDownloadWaitTime st"] body tr
    obtain r1 st1 where snd: "Send d st ?cmd True (fDownloadWaitTime st) = Some (r1, st1)" by auto
    from Send_frame[OF snd tr]
    obtain t1 where f1: "sameSettings st st1" "fDownloadSoFar st1 = fDownloadSoFar st"
      "fTransport st1 = Some t1" "tOracle t1 = tOracle t" "tComplementData t1 = tComplementData t"
      and sent1: "(r1 = Inl kRCX_RequestError \<and> tSent t1 = tSent t) \<or>
             (\<exists>rq. tSent t1 = tSent t @ [rq] \<and> rqCmd rq = ?cmd \<and>
                   r1 = fst (tOracle t (length (tSent t)) rq))"
      by blast
    have un: "chunk < 65536 \<Longrightarrow> unat (of_int n' :: UShort) = nat n'"
    proof -
      assume "chunk < 65536"
      moreover have "n' \<le> chunk" using n'(2) n1(3) by (rule order_trans)
      ultimately have "n' < 65536" by linarith
      moreover have "0 \<le> n'" using n'(1) by linarith
      ultimately show ?thesis by (intro unat_of_int_UShort)
    qed
    have pk: "\<And>q. chunk < 65536 \<Longrightarrow> rqCmd q = ?cmd \<Longrightarrow>
                dlBytes (rqCmd q) \<noteq> [] \<and> int (length (dlBytes (rqCmd q))) \<le> chunk"
    proof -
      fix q assume c: "chunk < 65536" and q: "rqCmd q = ?cmd"
      have "n' \<le> remain" using n'(2) n1(2) by (rule order_trans)
      then have l: "nat n' \<le> length data" using len by simp
      have le: "n' \<le> chunk" using n'(2) n1(3) by (rule order_trans)
      have b: "dlBytes (rqCmd q) = take (nat n') data" using un[OF c] q by simp
      have ln: "length (take (nat n') data) = nat n'" using l by simp
      have "0 < length (take (nat n') data)" unfolding ln using n'(1) by simp
      then have "take (nat n') data \<noteq> []" by (rule length_greater_0_conv[THEN iffD1])
      moreover have "int (length (take (nat n') data)) \<le> chunk" unfolding ln using le n'(1) by simp
      ultimately show "dlBytes (rqCmd q) \<noteq> [] \<and> int (length (dlBytes (rqCmd q))) \<le> chunk"
        unfolding b by blast
    qed
    have fitsOK: "downloadFits d (fTarget st) chunk \<and> (\<forall>k rq. \<not> RCX_ERROR (fst (tOracle t k rq)))
        \<Longrightarrow> \<not> RCX_ERROR r1"
    proof -
      assume a: "downloadFits d (fTarget st) chunk \<and> (\<forall>k rq. \<not> RCX_ERROR (fst (tOracle t k rq)))"
      have "uint (of_int n' :: UShort) \<le> n'"
        using n' by (simp add: uint_word_of_int zmod_le_nonneg_dividend)
      moreover have "n' \<le> chunk" using n'(2) n1(3) by (rule order_trans)
      ultimately have "nat (uint (of_int n' :: UShort)) \<le> nat chunk" by (intro nat_mono) linarith
      moreover have "unat (of_int n' :: UShort) = nat (uint (of_int n' :: UShort))"
        by (rule unat_eq_nat_uint)
      ultimately have "unat (of_int n' :: UShort) \<le> nat chunk" by (simp only:)
      with Send_fits[OF snd _ _ tr] a show ?thesis by blast
    qed
    show ?thesis
    proof (cases "RCX_ERROR r1")
      case err: True
      have res: "Download_loop d cb chunk st data remain seq = Some (r1, st1)"
        using step snd err by simp
      have ne: "r1 \<noteq> kRCX_OK" using err not_error_OK by auto
      from sent1 obtain new where new: "tSent t1 = tSent t @ new"
        "new = [] \<or> (\<exists>rq. new = [rq] \<and> rqCmd rq = ?cmd)" by auto
      have "chunk < 65536 \<longrightarrow> (\<exists>m. concat (map (\<lambda>rq. dlBytes (rqCmd rq)) new) = take m data)"
      proof
        assume c: "chunk < 65536"
        from new(2) show "\<exists>m. concat (map (\<lambda>rq. dlBytes (rqCmd rq)) new) = take m data"
        proof
          assume "new = []"
          then have "concat (map (\<lambda>rq. dlBytes (rqCmd rq)) new) = take 0 data" by simp
          then show ?thesis ..
        next
          assume "\<exists>rq. new = [rq] \<and> rqCmd rq = ?cmd"
          then have "concat (map (\<lambda>rq. dlBytes (rqCmd rq)) new) = take (nat n') data"
            using un[OF c] by auto
          then show ?thesis ..
        qed
      qed
      moreover have "chunk < 65536 \<longrightarrow> (\<forall>rq\<in>set new. dlBytes (rqCmd rq) \<noteq> [] \<and> int (length (dlBytes (rqCmd rq))) \<le> chunk)"
      proof
        assume c: "chunk < 65536"
        from new(2) show "(\<forall>rq\<in>set new. dlBytes (rqCmd rq) \<noteq> [] \<and> int (length (dlBytes (rqCmd rq))) \<le> chunk)"
        proof
          assume "new = []"
          then show ?thesis by simp
        next
          assume "\<exists>rq. new = [rq] \<and> rqCmd rq = ?cmd"
          then obtain rq where q: "new = [rq]" "rqCmd rq = ?cmd" by blast
          show ?thesis using pk[OF c q(2)] q(1) by simp
        qed
      qed
      ultimately show ?thesis using res ne f1 fitsOK err new(1) by auto
    next
      case ok: False
      from sent1 ok obtain rq where rq: "tSent t1 = tSent t @ [rq]" "rqCmd rq = ?cmd"
        by (auto simp: RCX_ERROR_def)
      obtain continue st2 where inc: "IncrementProgress cb st1 n' = (continue, st2)"
        by (cases "IncrementProgress cb st1 n'") auto
      from IncrementProgress_frame[OF inc]
      have f2: "sameSettings st1 st2"
        "fTransport st2 = fTransport st1" "(\<forall>a b c. cb a b c) \<longrightarrow> continue"
        by auto
      have ss2: "sameSettings st st2" using f1(1) f2(1) by (rule sameSettings_trans)
      have hd: "chunk < 65536 \<Longrightarrow> dlBytes (rqCmd rq) = take (nat n') data"
        using rq(2) un by simp
      have hd2: "chunk < 65536 \<Longrightarrow> dlBytes (rqCmd rq) \<noteq> [] \<and>
                   int (length (dlBytes (rqCmd rq))) \<le> chunk"
        using pk rq(2) by blast
      show ?thesis
      proof (cases continue)
        case False
        have res: "Download_loop d cb chunk st data remain seq = Some (Inl kRCX_AbortError, st2)"
          using step snd ok inc False n' by simp
        have "chunk < 65536 \<longrightarrow> (\<exists>m. concat (map (\<lambda>rq. dlBytes (rqCmd rq)) [rq]) = take m data)"
          using hd by auto
        moreover have "chunk < 65536 \<longrightarrow> (\<forall>rq\<in>set [rq]. dlBytes (rqCmd rq) \<noteq> [] \<and> int (length (dlBytes (rqCmd rq))) \<le> chunk)"
          using hd2 by simp
        ultimately show ?thesis using res ss2 f1 f2 rq False
          by (intro exI[of _ "Inl kRCX_AbortError"] exI[of _ st2] exI[of _ t1] exI[of _ "[rq]"])
             (simp add: Inl_neq_OK)
      next
        case cont: True
        have res: "Download_loop d cb chunk st data remain seq =
                     Download_loop d cb chunk st2 (drop (nat n') data) (remain - n') (?seq1 + 1)"
          using step snd ok inc cont n' by simp
        have m: "nat (remain - n') < nat remain" using n' True by auto
        have pre: "fTransport st2 = Some t1" "1 \<le> fMaxZeros st2" "1 \<le> fMaxOnes st2"
          "remain - n' = int (length (drop (nat n') data))"
          using f1 f2 ss2 less.prems n' n1 by (auto simp: sameSettings_def)
        from less.hyps[OF m pre, of "?seq1 + 1"]
        obtain r st' t' new where ih:
          "Download_loop d cb chunk st2 (drop (nat n') data) (remain - n') (?seq1 + 1) = Some (r, st')"
          "sameSettings st2 st'" "fTransport st' = Some t'" "tOracle t' = tOracle t1"
          "tComplementData t' = tComplementData t1" "tSent t' = tSent t1 @ new"
          "chunk < 65536 \<longrightarrow>
             (\<exists>m. concat (map (\<lambda>rq. dlBytes (rqCmd rq)) new) = take m (drop (nat n') data)) \<and>
             (\<forall>rq\<in>set new. dlBytes (rqCmd rq) \<noteq> [] \<and> int (length (dlBytes (rqCmd rq))) \<le> chunk) \<and>
             (r = kRCX_OK \<longrightarrow> concat (map (\<lambda>rq. dlBytes (rqCmd rq)) new) = drop (nat n') data)"
          "downloadFits d (fTarget st2) chunk \<and> (\<forall>k rq. \<not> RCX_ERROR (fst (tOracle t1 k rq))) \<and>
             (\<forall>a b c. cb a b c) \<longrightarrow> r = kRCX_OK"
          by blast
        have tgt: "fTarget st2 = fTarget st" using ss2 by (simp add: sameSettings_def)
        have c1: "sameSettings st st'" using ss2 ih(2) by (rule sameSettings_trans)
        have c2: "tSent t' = tSent t @ (rq # new)" using ih(6) rq by simp
        have c3: "chunk < 65536 \<longrightarrow>
                    (\<exists>m. concat (map (\<lambda>rq. dlBytes (rqCmd rq)) (rq # new)) = take m data)"
        proof
          assume c: "chunk < 65536"
          with ih(7) obtain m where
            "concat (map (\<lambda>rq. dlBytes (rqCmd rq)) new) = take m (drop (nat n') data)" by blast
          then have "concat (map (\<lambda>rq. dlBytes (rqCmd rq)) (rq # new)) = take (nat n' + m) data"
            using hd[OF c] by (simp add: take_add)
          then show "\<exists>m. concat (map (\<lambda>rq. dlBytes (rqCmd rq)) (rq # new)) = take m data" ..
        qed
        have c4: "chunk < 65536 \<longrightarrow> r = kRCX_OK \<longrightarrow>
                    concat (map (\<lambda>rq. dlBytes (rqCmd rq)) (rq # new)) = data"
          using ih(7) hd by simp
        have c6: "chunk < 65536 \<longrightarrow> (\<forall>rq\<in>set (rq # new). dlBytes (rqCmd rq) \<noteq> [] \<and> int (length (dlBytes (rqCmd rq))) \<le> chunk)"
          using ih(7) hd2 by simp
        have c5: "downloadFits d (fTarget st) chunk \<and> (\<forall>k rq. \<not> RCX_ERROR (fst (tOracle t k rq))) \<and>
             (\<forall>a b c. cb a b c) \<longrightarrow> r = kRCX_OK"
          using ih(8) tgt f1 by simp
        show ?thesis
          using res ih(1,3,4,5) f1(4,5) c1 c2 c3 c4 c5 c6 by (intro exI[of _ r] exI[of _ st'] exI[of _ t'] exI[of _ "rq # new"]) simp
      qed
    qed
  qed
qed

lemma sampleDownload8_eval:
  "\<exists>st' t'. sampleDownload8 = Some (kRCX_OK, st') \<and> fTransport st' = Some t' \<and>
     map rqCmd (tSent t') =
       [MakeDownload 1 [1, 2, 3, 4, 5, 6, 7, 8] 3,
        MakeDownload 2 [4, 5, 6, 7, 8] 3,
        MakeDownload 0 [7, 8] 2] \<and>
     fDownloadSoFar st' = 8"
  by (simp add: sampleDownload8_def sampleOpened_eval Download_def Download_loop.simps
      AdjustChunkSize_def IncrementProgress_def DownloadProgress_def int32_def
      send_defs sample_defs kRCX_OK_def RCX_ERROR_def Let_def)

lemma IncrementProgress_total0:
  assumes "fDownloadTotal st = 0"
  shows "IncrementProgress cb st delta =
           (True, st\<lparr>fDownloadSoFar := int32 (fDownloadSoFar st + delta)\<rparr>)"
  using assms by (simp add: IncrementProgress_def Let_def)

lemma Download_loop_no_abort:
  assumes "Download_loop d cb chunk st data remain seq = Some y"
  shows "fDownloadTotal st = 0 \<longrightarrow> abortFree st \<longrightarrow>
         fst y \<noteq> Inl kRCX_AbortError \<and> progressCalls (snd y) = progressCalls st \<and>
         fDownloadTotal (snd y) = 0 \<and> abortFree (snd y)"
proof (rule Download_loop.raw_induct[OF _ assms, where P = "\<lambda>d cb chunk st data remain seq y.
         fDownloadTotal st = 0 \<longrightarrow> abortFree st \<longrightarrow>
         fst y \<noteq> Inl kRCX_AbortError \<and> progressCalls (snd y) = progressCalls st \<and>
         fDownloadTotal (snd y) = 0 \<and> abortFree (snd y)"])
  fix loop :: "RCX_Defs \<Rightarrow> (int \<Rightarrow> int \<Rightarrow> int \<Rightarrow> bool) \<Rightarrow> int \<Rightarrow> RCX_Link \<Rightarrow> UByte list \<Rightarrow> int
      \<Rightarrow> UShort \<Rightarrow> (RCX_Result \<times> RCX_Link) option"
    and d :: RCX_Defs and cb :: "int \<Rightarrow> int \<Rightarrow> int \<Rightarrow> bool" and chunk :: int and st :: RCX_Link
    and data :: "UByte list" and remain :: int and seq :: UShort and y :: "RCX_Result \<times> RCX_Link"
  assume IH: "\<And>d cb chunk st data remain seq y.
      loop d cb chunk st data remain seq = Some y \<Longrightarrow>
      fDownloadTotal st = 0 \<longrightarrow> abortFree st \<longrightarrow>
      fst y \<noteq> Inl kRCX_AbortError \<and> progressCalls (snd y) = progressCalls st \<and>
      fDownloadTotal (snd y) = 0 \<and> abortFree (snd y)"
  assume hyps: "(if 0 < remain then
        (let seq1 = (if remain \<le> chunk \<and> (\<not> gQuiet st \<or> gProgramMode st) then 0 else seq);
             n = (if remain \<le> chunk then remain else chunk)
         in case fTransport st of
              None \<Rightarrow> None
            | Some t \<Rightarrow>
                (case AdjustChunkSize (fMaxZeros st) (fMaxOnes st) n data (tComplementData t) of
                   None \<Rightarrow> None
                 | Some n' \<Rightarrow>
                     (case Send d st (MakeDownload seq1 data (of_int n')) True (fDownloadWaitTime st) of
                        None \<Rightarrow> None
                      | Some (result, st1) \<Rightarrow>
                          if RCX_ERROR result then Some (result, st1)
                          else if n' < 0 then None
                          else
                            (case IncrementProgress cb st1 n' of
                               (continue, st2) \<Rightarrow>
                                 if \<not> continue then Some (Inl kRCX_AbortError, st2)
                                 else loop d cb chunk st2 (drop (nat n') data)
                                        (remain - n') (seq1 + 1)))))
      else Some (kRCX_OK, st)) = Some y"
  show "fDownloadTotal st = 0 \<longrightarrow> abortFree st \<longrightarrow>
         fst y \<noteq> Inl kRCX_AbortError \<and> progressCalls (snd y) = progressCalls st \<and>
         fDownloadTotal (snd y) = 0 \<and> abortFree (snd y)"
  proof (intro impI)
    assume tot: "fDownloadTotal st = 0" and orc: "abortFree st"
    show "fst y \<noteq> Inl kRCX_AbortError \<and> progressCalls (snd y) = progressCalls st \<and>
          fDownloadTotal (snd y) = 0 \<and> abortFree (snd y)"
    proof (cases "0 < remain")
      case False
      with hyps have "y = (kRCX_OK, st)" by simp
      then show ?thesis using tot orc by (simp add: kRCX_OK_def)
    next
      case True
      let ?n = "if remain \<le> chunk then remain else chunk"
      let ?seq1 = "if remain \<le> chunk \<and> (\<not> gQuiet st \<or> gProgramMode st) then 0 else seq"
      from hyps True obtain t where tr: "fTransport st = Some t"
        by (cases "fTransport st") (auto simp: Let_def)
      from hyps True tr obtain n' where
        adj: "AdjustChunkSize (fMaxZeros st) (fMaxOnes st) ?n data (tComplementData t) = Some n'"
        by (cases "AdjustChunkSize (fMaxZeros st) (fMaxOnes st) ?n data (tComplementData t)")
           (auto simp: Let_def)
      let ?cmd = "MakeDownload ?seq1 data (of_int n')"
      from hyps True tr adj obtain r1 st1 where
        snd: "Send d st ?cmd True (fDownloadWaitTime st) = Some (r1, st1)"
        by (cases "Send d st ?cmd True (fDownloadWaitTime st)") (auto simp: Let_def)
      from Send_frame[OF snd tr]
      obtain t1 where f1: "sameSettings st st1" "progressCalls st1 = progressCalls st"
        "fTransport st1 = Some t1" "tOracle t1 = tOracle t"
        and sent1: "(r1 = Inl kRCX_RequestError \<and> tSent t1 = tSent t) \<or>
             (\<exists>rq. tSent t1 = tSent t @ [rq] \<and> rqCmd rq = ?cmd \<and>
                   r1 = fst (tOracle t (length (tSent t)) rq))"
        by blast
      have o: "\<And>k rq. fst (tOracle t k rq) \<noteq> Inl kRCX_AbortError"
        using orc tr unfolding abortFree_def by blast
      have r1: "r1 \<noteq> Inl kRCX_AbortError"
      proof
        assume a: "r1 = Inl kRCX_AbortError"
        with sent1 obtain rq where "r1 = fst (tOracle t (length (tSent t)) rq)" by auto
        with a o[of "length (tSent t)" rq] show False by simp
      qed
      have tot1: "fDownloadTotal st1 = 0" using f1(1) tot by (simp add: sameSettings_def)
      have af1: "abortFree st1" using f1(3,4) o by (simp add: abortFree_def)
      show ?thesis
      proof (cases "RCX_ERROR r1")
        case True
        with hyps \<open>0 < remain\<close> tr adj snd have "y = (r1, st1)" by (simp add: Let_def)
        then show ?thesis using r1 f1 tot1 af1 by simp
      next
        case False
        let ?st2 = "st1\<lparr>fDownloadSoFar := int32 (fDownloadSoFar st1 + n')\<rparr>"
        have inc: "IncrementProgress cb st1 n' = (True, ?st2)"
          using tot1 by (rule IncrementProgress_total0)
        from hyps \<open>0 < remain\<close> tr adj snd False inc
        have rec: "loop d cb chunk ?st2 (drop (nat n') data) (remain - n') (?seq1 + 1) = Some y"
          by (auto simp: Let_def split: if_splits)
        have "fDownloadTotal ?st2 = 0" using tot1 by simp
        moreover have "abortFree ?st2" using af1 by (simp add: abortFree_def)
        ultimately have "fst y \<noteq> Inl kRCX_AbortError \<and> progressCalls (snd y) = progressCalls ?st2 \<and>
            fDownloadTotal (snd y) = 0 \<and> abortFree (snd y)"
          using IH[OF rec] by blast
        then show ?thesis using f1 by simp
      qed
    qed
  qed
qed





lemma sampleOpened_state:
  "\<exists>s t. sampleOpened = Some (kRCX_OK, s) \<and> fTransport s = Some t \<and> tSent t = [] \<and>
     tOracle t = (\<lambda>k rq. (Inr 1, [0, 0])) \<and> \<not> tComplementData t \<and>
     fMaxZeros s = 23 \<and> fMaxOnes s = 90 \<and> fTarget s = kRCX_RCXTarget \<and>
     \<not> gQuiet s \<and> \<not> gProgramMode s \<and> fDownloadSoFar s = 0 \<and> fDownloadTotal s = 0 \<and>
     progressCalls s = []"
  by (simp add: sampleOpened_eval sample_defs)

lemma Send_abortFree:
  assumes "Send d st cmd retry timeout = Some (r, st1)" and "abortFree st"
  shows "r \<noteq> Inl kRCX_AbortError \<and> abortFree st1 \<and>
         fDownloadTotal st1 = fDownloadTotal st \<and> progressCalls st1 = progressCalls st"
  using Send_cases[OF assms(1)] assms(2)
  by (auto simp: abortFree_def)

lemma abortFree_fSynced: "abortFree (s\<lparr>fSynced := b\<rparr>) = abortFree s"
  by (simp add: abortFree_def)

lemma Sync_abortFree:
  assumes "Sync d st = Some (r, st1)" and "abortFree st"
  shows "r \<noteq> Inl kRCX_AbortError \<and> abortFree st1"
proof (cases "fSynced st")
  case True
  then show ?thesis using assms by (auto simp: Sync_def kRCX_OK_def)
next
  case False
  from assms(1) False obtain ra sa where
    a: "Send d st MakePing True (kDefaultTimeout d) = Some (ra, sa)"
    by (auto simp: Sync_def split: option.splits)
  have fa: "ra \<noteq> Inl kRCX_AbortError" "abortFree sa"
    using Send_abortFree[OF a assms(2)] by auto
  show ?thesis
  proof (cases "RCX_ERROR ra")
    case True
    have "Sync d st = Some (ra, sa)" using False a True by (simp add: Sync_def)
    then show ?thesis using assms(1) fa by simp
  next
    case okA: False
    show ?thesis
    proof (cases "fTarget sa = kRCX_CMTarget")
      case True
      from assms(1) False a okA True obtain rb sb where
        b: "Send d sa MakeUnlockCM True (kDefaultTimeout d) = Some (rb, sb)"
        by (auto simp: Sync_def split: option.splits)
      have fb: "rb \<noteq> Inl kRCX_AbortError" "abortFree sb"
        using Send_abortFree[OF b fa(2)] by auto
      have "Sync d st = (if RCX_ERROR rb then Some (rb, sb) else Some (kRCX_OK, sb\<lparr>fSynced := True\<rparr>))"
        using False a okA True b by (simp add: Sync_def)
      then show ?thesis using assms(1) fb
        by (cases "RCX_ERROR rb") (auto simp: abortFree_fSynced Inl_neq_OK)
    next
      case notCM: False
      show ?thesis
      proof (cases "fTarget sa = kRCX_ScoutTarget")
        case True
        from assms(1) False a okA notCM True obtain rb sb where
          b: "Send d sa MakeUnlock True (kDefaultTimeout d) = Some (rb, sb)"
          by (auto simp: Sync_def split: option.splits)
        have fb: "rb \<noteq> Inl kRCX_AbortError" "abortFree sb"
          using Send_abortFree[OF b fa(2)] by auto
        show ?thesis
        proof (cases "RCX_ERROR rb")
          case True
          have "Sync d st = Some (rb, sb)"
            using False a okA notCM \<open>fTarget sa = kRCX_ScoutTarget\<close> b True by (simp add: Sync_def)
          then show ?thesis using assms(1) fb by simp
        next
          case okB: False
          from assms(1) False a okA notCM True b okB obtain rc sc where
            c: "Send d sb (Set [0x47, 0x80]) True (kDefaultTimeout d) = Some (rc, sc)"
            by (auto simp: Sync_def split: option.splits)
          have fc: "rc \<noteq> Inl kRCX_AbortError" "abortFree sc"
            using Send_abortFree[OF c fb(2)] by auto
          have "Sync d st = (if RCX_ERROR rc then Some (rc, sc) else Some (kRCX_OK, sc\<lparr>fSynced := True\<rparr>))"
            using False a okA notCM True b okB c by (simp add: Sync_def)
          then show ?thesis using assms(1) fc
            by (cases "RCX_ERROR rc") (auto simp: abortFree_fSynced Inl_neq_OK)
        qed
      next
        case notScout: False
        have "Sync d st = Some (kRCX_OK, sa\<lparr>fSynced := True\<rparr>)"
          using False a okA notCM notScout by (simp add: Sync_def)
        then show ?thesis using assms(1) fa by (auto simp: abortFree_fSynced Inl_neq_OK)
      qed
    qed
  qed
qed

lemma Download_no_abort:
  assumes "Download d cb st data len chunk = Some (r, st')"
    and "fDownloadTotal st = 0" and "abortFree st"
  shows "r \<noteq> Inl kRCX_AbortError \<and> progressCalls st' = progressCalls st \<and> abortFree st'"
  using Download_loop_no_abort[of d cb chunk st data len 1 "(r, st')"] assms
  by (simp add: Download_def)

lemma abortFree_BeginProgress: "abortFree (BeginProgress s n) = abortFree s"
  by (simp add: abortFree_def BeginProgress_def)

subsection \<open>Progress and abort\<close>

lemma TransferFirmware_no_abort:
  assumes run: "TransferFirmware d cb st data len start False = Some (r, st')"
    and af: "abortFree st"
  shows "r \<noteq> Inl kRCX_AbortError"
proof -
  from run obtain r1 s1 where y: "Sync d st = Some (r1, s1)"
    by (auto simp: TransferFirmware_def split: option.splits)
  have f1: "r1 \<noteq> Inl kRCX_AbortError" "abortFree s1" using Sync_abortFree[OF y af] by auto
  show ?thesis
  proof (cases "RCX_ERROR r1")
    case True
    then have "TransferFirmware d cb st data len start False = Some (r1, s1)"
      using y by (simp add: TransferFirmware_def)
    with run f1 show ?thesis by simp
  next
    case ok1: False
    let ?del = "Set [of_int (kRCX_DeleteFirmware d), 1, 3, 5, 7, 0xb]"
    from run y ok1 obtain r2 s2 where d2: "Send d s1 ?del True (kDefaultTimeout d) = Some (r2, s2)"
      by (auto simp: TransferFirmware_def split: option.splits)
    have f2: "r2 \<noteq> Inl kRCX_AbortError" "abortFree s2" using Send_abortFree[OF d2 f1(2)] by auto
    show ?thesis
    proof (cases "RCX_ERROR r2")
      case True
      then have "TransferFirmware d cb st data len start False = Some (r2, s2)"
        using y ok1 d2 by (simp add: TransferFirmware_def)
      with run f2 show ?thesis by simp
    next
      case ok2: False
      from run y ok1 d2 ok2 obtain check where ck: "FirmwareChecksum data len = Some check"
        by (auto simp: TransferFirmware_def split: option.splits)
      from run y ok1 d2 ok2 ck obtain r3 s3 where
        b3: "Send d s2 (BeginFirmwareCmd d start check) True (kDefaultTimeout d) = Some (r3, s3)"
        by (auto simp: TransferFirmware_def split: option.splits)
      have f3: "r3 \<noteq> Inl kRCX_AbortError" "abortFree s3" using Send_abortFree[OF b3 f2(2)] by auto
      show ?thesis
      proof (cases "RCX_ERROR r3")
        case True
        then have "TransferFirmware d cb st data len start False = Some (r3, s3)"
          using y ok1 d2 ok2 ck b3 by (simp add: TransferFirmware_def)
        with run f3 show ?thesis by simp
      next
        case ok3: False
        from run y ok1 d2 ok2 ck b3 ok3 obtain r4 s4 where
          d4: "Download d cb (BeginProgress s3 0) data len (fRCXFirmwareChunkSize s3) = Some (r4, s4)"
          by (auto simp: TransferFirmware_def split: option.splits)
        have t4: "fDownloadTotal (BeginProgress s3 0) = 0" by (simp add: BeginProgress_def)
        have a4: "abortFree (BeginProgress s3 0)" using f3(2) by (simp add: abortFree_BeginProgress)
        have f4: "r4 \<noteq> Inl kRCX_AbortError" "abortFree s4"
          using Download_no_abort[OF d4 t4 a4] by auto
        show ?thesis
        proof (cases "RCX_ERROR r4")
          case True
          then have "TransferFirmware d cb st data len start False = Some (r4, s4)"
            using y ok1 d2 ok2 ck b3 ok3 d4 by (simp add: TransferFirmware_def)
          with run f4 show ?thesis by simp
        next
          case ok4: False
          from run y ok1 d2 ok2 ck b3 ok3 d4 ok4 obtain r5 s5 where
            u5: "Send d s4 MakeUnlock False (kMaxTimeout d) = Some (r5, s5)"
            by (auto simp: TransferFirmware_def split: option.splits)
          have f5: "r5 \<noteq> Inl kRCX_AbortError" using Send_abortFree[OF u5 f4(2)] by auto
          from run y ok1 d2 ok2 ck b3 ok3 d4 ok4 u5 have "r = kRCX_OK \<or> r = r5"
            by (auto simp: TransferFirmware_def split: option.splits if_splits)
          then show ?thesis using f5 by (auto simp: Inl_neq_OK)
        qed
      qed
    qed
  qed
qed

lemma sampleSilentDownload_eval:
  "\<exists>st'. sampleSilentDownload = Some (kRCX_OK, st')"
  by (simp add: sampleSilentDownload_def sampleOpened_eval Download_def Download_loop.simps
      AdjustChunkSize_def IncrementProgress_def BeginProgress_def int32_def
      send_defs sample_defs kRCX_OK_def RCX_ERROR_def Let_def)

lemma sampleNubTransfer_eval:
  "\<exists>st'. sampleNubTransfer = Some (Inr 1, st')"
  by (simp add: sampleNubTransfer_def sampleOpened_eval TransferFirmware_def Sync_def
      FirmwareChecksum_def Checksum_def BeginFirmwareCmd_def
      Download_def Download_loop.simps
      AdjustChunkSize_def IncrementProgress_def BeginProgress_def int32_def
      send_defs sample_defs kRCX_OK_def RCX_ERROR_def Let_def)

text \<open>
  C10: when the progress total is 0, as \<open>BeginProgress(0)\<close> leaves it, every
  \<open>IncrementProgress\<close> returns true and calls no \<open>DownloadProgress\<close>, whatever the callback
  in force; so a chunk loop that runs under total 0 on a transport that itself never
  answers \<open>kRCX_AbortError\<close> never returns \<open>kRCX_AbortError\<close> and calls no callback, and
  neither does \<open>TransferFirmware\<close> with its progress flag false.
\<close>

theorem C10_total0_never_aborts:
  "(fDownloadTotal st = 0 \<longrightarrow>
      fst (IncrementProgress cb st delta) \<and>
      progressCalls (snd (IncrementProgress cb st delta)) = progressCalls st) \<and>
   fDownloadTotal (BeginProgress st 0) = 0 \<and>
   (fDownloadTotal st = 0 \<and> abortFree st \<and> Download d cb st data len chunk = Some (r, st') \<longrightarrow>
      r \<noteq> Inl kRCX_AbortError \<and> progressCalls st' = progressCalls st) \<and>
   (abortFree st \<and> TransferFirmware d cb st data len start False = Some (r2, st2) \<longrightarrow>
      r2 \<noteq> Inl kRCX_AbortError)"
proof -
  have a: "fDownloadTotal st = 0 \<longrightarrow>
      fst (IncrementProgress cb st delta) \<and>
      progressCalls (snd (IncrementProgress cb st delta)) = progressCalls st"
    by (simp add: IncrementProgress_total0)
  have b: "fDownloadTotal (BeginProgress st 0) = 0" by (simp add: BeginProgress_def)
  have c: "fDownloadTotal st = 0 \<and> abortFree st \<and> Download d cb st data len chunk = Some (r, st') \<longrightarrow>
      r \<noteq> Inl kRCX_AbortError \<and> progressCalls st' = progressCalls st"
    using Download_no_abort[of d cb st data len chunk r st'] by blast
  have e: "abortFree st \<and> TransferFirmware d cb st data len start False = Some (r2, st2) \<longrightarrow>
      r2 \<noteq> Inl kRCX_AbortError"
    using TransferFirmware_no_abort[of d cb st data len start r2 st2] by blast
  show ?thesis using a b c e by blast
qed

theorem C10_total0_never_aborts_witness:
  "\<exists>s st' st2. sampleOpened = Some (kRCX_OK, s) \<and>
     fDownloadTotal (BeginProgress s 0) = 0 \<and> abortFree (BeginProgress s 0) \<and>
     fst (IncrementProgress (\<lambda>soFar total0 chunkSize. False) (BeginProgress s 0) 3) \<and>
     Download sampleDefs (\<lambda>soFar total0 chunkSize. False) (BeginProgress s 0)
       [1, 2, 3, 4, 5, 6, 7, 8] 8 3 = Some (kRCX_OK, st') \<and>
     kRCX_OK \<noteq> Inl kRCX_AbortError \<and> progressCalls st' = [] \<and>
     TransferFirmware sampleDefs (\<lambda>soFar total0 chunkSize. False) s
       [1, 2, 3, 4, 5, 6, 7, 8] 8 0x8000 False = Some (Inr 1, st2) \<and>
     Inr 1 \<noteq> Inl kRCX_AbortError"
proof -
  let ?cb = "\<lambda>(soFar::int) (total0::int) (chunkSize::int). False"
  from sampleOpened_state obtain s t where
    s: "sampleOpened = Some (kRCX_OK, s)" "fTransport s = Some t"
       "tOracle t = (\<lambda>k rq. (Inr 1, [0, 0]))" "progressCalls s = []"
    by blast
  have af: "abortFree s" using s by (simp add: abortFree_def)
  have af0: "abortFree (BeginProgress s 0)" using af by (simp add: abortFree_BeginProgress)
  have pc: "progressCalls (BeginProgress s 0) = []" using s by (simp add: BeginProgress_def)
  from sampleSilentDownload_eval obtain st' where "sampleSilentDownload = Some (kRCX_OK, st')"
    by blast
  then have dl: "Download sampleDefs ?cb (BeginProgress s 0) [1, 2, 3, 4, 5, 6, 7, 8] 8 3
                   = Some (kRCX_OK, st')"
    unfolding sampleSilentDownload_def s(1) by simp
  from sampleNubTransfer_eval obtain st2 where "sampleNubTransfer = Some (Inr 1, st2)" by blast
  then have tf: "TransferFirmware sampleDefs ?cb s [1, 2, 3, 4, 5, 6, 7, 8] 8 0x8000 False
                   = Some (Inr 1, st2)"
    unfolding sampleNubTransfer_def s(1) by simp
  note thm1 = C10_total0_never_aborts[of "BeginProgress s 0" ?cb 3 sampleDefs
      "[1, 2, 3, 4, 5, 6, 7, 8]" 8 3 kRCX_OK st']
  note thm2 = C10_total0_never_aborts[of s ?cb 3 sampleDefs
      "[1, 2, 3, 4, 5, 6, 7, 8]" 8 3 _ _ "0x8000" "Inr 1" st2]
  have t0: "fDownloadTotal (BeginProgress s 0) = 0" by (simp add: BeginProgress_def)
  have 1: "fst (IncrementProgress ?cb (BeginProgress s 0) 3)" using thm1 t0 by blast
  have 2: "kRCX_OK \<noteq> Inl kRCX_AbortError \<and> progressCalls st' = []"
    using thm1 t0 af0 dl pc by simp
  have 3: "Inr 1 \<noteq> Inl kRCX_AbortError" using thm2 af tf by blast
  show ?thesis using s(1) t0 af0 1 dl 2 tf 3 by blast
qed

subsection \<open>The packets of a download\<close>

lemma Download_loop_result:
  assumes "Download_loop d cb chunk st data remain seq = Some y"
  shows "RCX_ERROR (fst y) \<or> fst y = kRCX_OK"
proof (rule Download_loop.raw_induct[OF _ assms, where P = "\<lambda>d cb chunk st data remain seq y.
         RCX_ERROR (fst y) \<or> fst y = kRCX_OK"])
  fix loop :: "RCX_Defs \<Rightarrow> (int \<Rightarrow> int \<Rightarrow> int \<Rightarrow> bool) \<Rightarrow> int \<Rightarrow> RCX_Link \<Rightarrow> UByte list \<Rightarrow> int
      \<Rightarrow> UShort \<Rightarrow> (RCX_Result \<times> RCX_Link) option"
    and d :: RCX_Defs and cb :: "int \<Rightarrow> int \<Rightarrow> int \<Rightarrow> bool" and chunk :: int and st :: RCX_Link
    and data :: "UByte list" and remain :: int and seq :: UShort and y :: "RCX_Result \<times> RCX_Link"
  assume IH: "\<And>d cb chunk st data remain seq y.
      loop d cb chunk st data remain seq = Some y \<Longrightarrow> RCX_ERROR (fst y) \<or> fst y = kRCX_OK"
  assume hyps: "(if 0 < remain then
        (let seq1 = (if remain \<le> chunk \<and> (\<not> gQuiet st \<or> gProgramMode st) then 0 else seq);
             n = (if remain \<le> chunk then remain else chunk)
         in case fTransport st of
              None \<Rightarrow> None
            | Some t \<Rightarrow>
                (case AdjustChunkSize (fMaxZeros st) (fMaxOnes st) n data (tComplementData t) of
                   None \<Rightarrow> None
                 | Some n' \<Rightarrow>
                     (case Send d st (MakeDownload seq1 data (of_int n')) True (fDownloadWaitTime st) of
                        None \<Rightarrow> None
                      | Some (result, st1) \<Rightarrow>
                          if RCX_ERROR result then Some (result, st1)
                          else if n' < 0 then None
                          else
                            (case IncrementProgress cb st1 n' of
                               (continue, st2) \<Rightarrow>
                                 if \<not> continue then Some (Inl kRCX_AbortError, st2)
                                 else loop d cb chunk st2 (drop (nat n') data)
                                        (remain - n') (seq1 + 1)))))
      else Some (kRCX_OK, st)) = Some y"
  show "RCX_ERROR (fst y) \<or> fst y = kRCX_OK"
  proof (cases "0 < remain")
    case False
    with hyps have "y = (kRCX_OK, st)" by simp
    then show ?thesis by simp
  next
    case True
    let ?n = "if remain \<le> chunk then remain else chunk"
    let ?seq1 = "if remain \<le> chunk \<and> (\<not> gQuiet st \<or> gProgramMode st) then 0 else seq"
    from hyps True obtain t where tr: "fTransport st = Some t"
      by (cases "fTransport st") (auto simp: Let_def)
    from hyps True tr obtain n' where
      adj: "AdjustChunkSize (fMaxZeros st) (fMaxOnes st) ?n data (tComplementData t) = Some n'"
      by (cases "AdjustChunkSize (fMaxZeros st) (fMaxOnes st) ?n data (tComplementData t)")
         (auto simp: Let_def)
    let ?cmd = "MakeDownload ?seq1 data (of_int n')"
    from hyps True tr adj obtain r1 st1 where
      snd: "Send d st ?cmd True (fDownloadWaitTime st) = Some (r1, st1)"
      by (cases "Send d st ?cmd True (fDownloadWaitTime st)") (auto simp: Let_def)
    show ?thesis
    proof (cases "RCX_ERROR r1")
      case True
      with hyps \<open>0 < remain\<close> tr adj snd have "y = (r1, st1)" by (simp add: Let_def)
      then show ?thesis using True by simp
    next
      case False
      obtain continue st2 where inc: "IncrementProgress cb st1 n' = (continue, st2)"
        by (cases "IncrementProgress cb st1 n'") auto
      show ?thesis
      proof (cases continue)
        case False
        with hyps \<open>0 < remain\<close> tr adj snd \<open>\<not> RCX_ERROR r1\<close> inc
        have "y = (Inl kRCX_AbortError, st2)" by (auto simp: Let_def split: if_splits)
        then show ?thesis by (simp add: RCX_ERROR_def)
      next
        case True
        from hyps \<open>0 < remain\<close> tr adj snd \<open>\<not> RCX_ERROR r1\<close> inc True
        have rec: "loop d cb chunk st2 (drop (nat n') data) (remain - n') (?seq1 + 1) = Some y"
          by (auto simp: Let_def split: if_splits)
        from IH[OF rec] show ?thesis .
      qed
    qed
  qed
qed

lemma sum_list_length_concat:
  "sum_list (map (\<lambda>x. int (length (f x))) xs) = int (length (concat (map f xs)))"
  by (induction xs) auto

lemma sample_downloadFits: "chunk \<le> 200 \<Longrightarrow> downloadFits sampleDefs target chunk"
  unfolding downloadFits_def
  by (auto simp: send_defs sample_defs Let_def split: if_splits)

lemma sampleBigChunkDownload_eval:
  "\<exists>st' t' rq. sampleBigChunkDownload = Some (kRCX_OK, st') \<and> fTransport st' = Some t' \<and>
     tSent t' = [rq] \<and> rqCmd rq = MakeDownload 0 (replicate 65536 0xff) 0"
  by (simp add: sampleBigChunkDownload_def sampleComplementEnv_def open_defs
      Download_def Download_loop.simps
      AdjustChunkSize_def IncrementProgress_def DownloadProgress_def int32_def
      send_defs sample_defs Let_def)

lemma sampleZerosDownload_eval:
  "\<exists>st' t'. sampleZerosDownload = Some (kRCX_OK, st') \<and> fTransport st' = Some t' \<and>
     map rqCmd (tSent t') =
       [MakeDownload 0 (replicate 30 0) 23, MakeDownload 0 (replicate 7 0) 7]"
  by (simp add: sampleZerosDownload_def sampleOpened_eval Download_def Download_loop.simps
      AdjustChunkSize_def IncrementProgress_def DownloadProgress_def int32_def
      send_defs sample_defs kRCX_OK_def RCX_ERROR_def Let_def)

text \<open>
  C6, as the claim states it, fails for a chunk size that does not fit the 16-bit length
  of a download command: on the instance with complement bytes, a download of 65536 bytes
  in one chunk of 65536 returns \<open>kRCX_OK\<close> after a single command whose length
  \<open>(UShort)n\<close> is 0, so that no byte of the payload has been handed to the transport.
\<close>

theorem C6_counterexample:
  "(case sampleBigChunkDownload of
      None \<Rightarrow> False
    | Some (r, s) \<Rightarrow>
        r = kRCX_OK \<and>
        (case fTransport s of
           None \<Rightarrow> False
         | Some t \<Rightarrow>
             map rqCmd (tSent t) = [MakeDownload 0 (replicate 65536 0xff) 0] \<and>
             concat (map (\<lambda>rq. dlBytes (rqCmd rq)) (tSent t)) = []))"
proof -
  from sampleBigChunkDownload_eval obtain st' t' rq where
    a: "sampleBigChunkDownload = Some (kRCX_OK, st')" "fTransport st' = Some t'"
       "tSent t' = [rq]" "rqCmd rq = MakeDownload 0 (replicate 65536 0xff) 0"
    by blast
  show ?thesis by (simp add: a)
qed

text \<open>
  C6, amended: for every payload of \<open>L \<ge> 0\<close> bytes and every chunk size from 1 to
  65535 the chunk loop returns (the thresholds of the adaptor being positive, as
  \<open>Open\<close> and the constructor set them, a transport being open, and every download
  command having an opcode byte).  The commands it has handed to the transport carry, in
  order, a prefix of the payload, each of them at least one byte and at most
  \<open>chunk\<close> bytes.  It returns \<open>kRCX_OK\<close> or an error; when it returns
  \<open>kRCX_OK\<close> the commands carry exactly the payload, every byte once and in order,
  and their sizes sum to \<open>L\<close>; and it does return \<open>kRCX_OK\<close> when \<open>Send\<close>
  rejects no download command, the transport reports no error and the progress callback
  never asks to abort.
\<close>

theorem C6_chunk_loop_total:
  assumes "1 \<le> chunk" and "chunk < 65536" and "len = int (length data)"
    and "fTransport st = Some t" and "1 \<le> fMaxZeros st" and "1 \<le> fMaxOnes st"
    and "\<forall>seq dat n. GetBody d (MakeDownload seq dat n) \<noteq> []"
  shows "\<exists>r st' t' new. Download d cb st data len chunk = Some (r, st') \<and>
           fTransport st' = Some t' \<and> tSent t' = tSent t @ new \<and>
           (\<exists>m. concat (map (\<lambda>rq. dlBytes (rqCmd rq)) new) = take m data) \<and>
           (\<forall>rq\<in>set new. dlBytes (rqCmd rq) \<noteq> [] \<and> int (length (dlBytes (rqCmd rq))) \<le> chunk) \<and>
           (RCX_ERROR r \<or> r = kRCX_OK) \<and>
           (r = kRCX_OK \<longrightarrow>
              concat (map (\<lambda>rq. dlBytes (rqCmd rq)) new) = data \<and>
              sum_list (map (\<lambda>rq. int (length (dlBytes (rqCmd rq)))) new) = len) \<and>
           (downloadFits d (fTarget st) chunk \<and> (\<forall>k rq. \<not> RCX_ERROR (fst (tOracle t k rq))) \<and>
              (\<forall>a b c. cb a b c) \<longrightarrow> r = kRCX_OK)"
proof -
  from Download_loop_run[OF assms(1) assms(7) assms(4) assms(5) assms(6) assms(3), of cb 1]
  obtain r st' t' new where
    run: "Download_loop d cb chunk st data len 1 = Some (r, st')"
    and tr: "fTransport st' = Some t'" "tSent t' = tSent t @ new"
    and big: "chunk < 65536 \<longrightarrow>
                (\<exists>m. concat (map (\<lambda>rq. dlBytes (rqCmd rq)) new) = take m data) \<and>
                (\<forall>rq\<in>set new. dlBytes (rqCmd rq) \<noteq> [] \<and> int (length (dlBytes (rqCmd rq))) \<le> chunk) \<and>
                (r = kRCX_OK \<longrightarrow> concat (map (\<lambda>rq. dlBytes (rqCmd rq)) new) = data)"
    and ok: "downloadFits d (fTarget st) chunk \<and> (\<forall>k rq. \<not> RCX_ERROR (fst (tOracle t k rq))) \<and>
                (\<forall>a b c. cb a b c) \<longrightarrow> r = kRCX_OK"
    by blast
  from big assms(2) have
    p: "\<exists>m. concat (map (\<lambda>rq. dlBytes (rqCmd rq)) new) = take m data"
    and q: "\<forall>rq\<in>set new. dlBytes (rqCmd rq) \<noteq> [] \<and> int (length (dlBytes (rqCmd rq))) \<le> chunk"
    and c: "r = kRCX_OK \<longrightarrow> concat (map (\<lambda>rq. dlBytes (rqCmd rq)) new) = data"
    by blast+
  have s: "r = kRCX_OK \<longrightarrow>
             sum_list (map (\<lambda>rq. int (length (dlBytes (rqCmd rq)))) new) = len"
    using c assms(3) by (simp add: sum_list_length_concat)
  have e: "RCX_ERROR r \<or> r = kRCX_OK" using Download_loop_result[OF run] by simp
  have d: "Download d cb st data len chunk = Some (r, st')" using run by (simp add: Download_def)
  from d tr p q e c s ok show ?thesis by blast
qed

theorem C6_chunk_loop_total_witness:
  "\<exists>s st' t'. sampleOpened = Some (kRCX_OK, s) \<and>
     Download sampleDefs DownloadProgress s (replicate 30 0) 30 200 = Some (kRCX_OK, st') \<and>
     fTransport st' = Some t' \<and>
     map rqCmd (tSent t') =
       [MakeDownload 0 (replicate 30 0) 23, MakeDownload 0 (replicate 7 0) 7] \<and>
     concat (map (\<lambda>rq. dlBytes (rqCmd rq)) (tSent t')) = replicate 30 0 \<and>
     sum_list (map (\<lambda>rq. int (length (dlBytes (rqCmd rq)))) (tSent t')) = 30 \<and>
     map (\<lambda>rq. length (dlBytes (rqCmd rq))) (tSent t') = [23, 7]"
proof -
  from sampleOpened_state obtain s t where
    s: "sampleOpened = Some (kRCX_OK, s)" "fTransport s = Some t" "tSent t = []"
       "tOracle t = (\<lambda>k rq. (Inr 1, [0, 0]))"
       "fMaxZeros s = 23" "fMaxOnes s = 90"
    by blast
  have b: "\<forall>seq dat n. GetBody sampleDefs (MakeDownload seq dat n) \<noteq> []"
    by (simp add: sampleDefs_def)
  have l: "(30::int) = int (length (replicate 30 (0::UByte)))" by simp
  have z: "1 \<le> fMaxZeros s" "1 \<le> fMaxOnes s" using s by auto
  have o: "\<forall>k rq. \<not> RCX_ERROR (fst (tOracle t k rq))" using s(4) by (simp add: RCX_ERROR_def)
  have cbT: "\<forall>a b c. DownloadProgress a b c" by (simp add: DownloadProgress_def)
  have h: "(1::int) \<le> 200" "(200::int) < 65536" by simp_all
  from C6_chunk_loop_total[of 200 30 "replicate 30 0" s t sampleDefs DownloadProgress, OF h l s(2) z b]
  obtain r st' t' new where
    c: "Download sampleDefs DownloadProgress s (replicate 30 0) 30 200 = Some (r, st')"
       "fTransport st' = Some t'" "tSent t' = tSent t @ new"
       "\<forall>rq\<in>set new. dlBytes (rqCmd rq) \<noteq> [] \<and> int (length (dlBytes (rqCmd rq))) \<le> 200"
       "r = kRCX_OK \<longrightarrow>
              concat (map (\<lambda>rq. dlBytes (rqCmd rq)) new) = replicate 30 0 \<and>
              sum_list (map (\<lambda>rq. int (length (dlBytes (rqCmd rq)))) new) = 30"
       "downloadFits sampleDefs (fTarget s) 200 \<and>
          (\<forall>k rq. \<not> RCX_ERROR (fst (tOracle t k rq))) \<and>
          (\<forall>a b c. DownloadProgress a b c) \<longrightarrow> r = kRCX_OK"
    by blast
  have fits: "downloadFits sampleDefs (fTarget s) 200" by (rule sample_downloadFits) simp
  from c(6) fits o cbT have r: "r = kRCX_OK" by blast
  from sampleZerosDownload_eval obtain st1 t1 where
    e: "sampleZerosDownload = Some (kRCX_OK, st1)" "fTransport st1 = Some t1"
       "map rqCmd (tSent t1) =
          [MakeDownload 0 (replicate 30 0) 23, MakeDownload 0 (replicate 7 0) 7]"
    by auto
  from e(1) have "Download sampleDefs DownloadProgress s (replicate 30 0) 30 200 = Some (kRCX_OK, st1)"
    unfolding sampleZerosDownload_def s(1) by simp
  with c(1) have "st1 = st'" by simp
  with e(2) c(2) have "t1 = t'" by simp
  have n: "tSent t' = new" using c(3) s(3) by simp
  have c1: "Download sampleDefs DownloadProgress s (replicate 30 0) 30 200 = Some (kRCX_OK, st')"
    using c(1) r by simp
  have m: "map rqCmd (tSent t') =
             [MakeDownload 0 (replicate 30 0) 23, MakeDownload 0 (replicate 7 0) 7]"
    using e(3) \<open>t1 = t'\<close> by simp
  have g: "concat (map (\<lambda>rq. dlBytes (rqCmd rq)) (tSent t')) = replicate 30 0"
          "sum_list (map (\<lambda>rq. int (length (dlBytes (rqCmd rq)))) (tSent t')) = 30"
    using c(5) r n by simp_all
  have q: "map (\<lambda>rq. length (dlBytes (rqCmd rq))) (tSent t')
             = map (\<lambda>c. length (dlBytes c)) (map rqCmd (tSent t'))"
    by simp
  have q2: "map (\<lambda>rq. length (dlBytes (rqCmd rq))) (tSent t') = [23, 7]"
    unfolding q m by simp
  show ?thesis
    apply (rule exI[of _ s])
    apply (rule exI[of _ st'])
    apply (rule exI[of _ t'])
    apply (intro conjI)
          apply (rule s(1))
         apply (rule c1)
        apply (rule c(2))
       apply (rule m)
      apply (rule g(1))
     apply (rule g(2))
    apply (rule q2)
    done
qed

subsection \<open>Sequence numbers\<close>







subsection \<open>The firmware transfer\<close>

lemma Checksum_loop_Some:
  "Checksum_loop data len check = Some r \<Longrightarrow> 0 \<le> len \<and> len \<le> int (length data)"
proof (induction data len check rule: Checksum_loop.induct)
  case (1 data len check)
  show ?case
  proof (cases "len = 0")
    case True
    then show ?thesis by simp
  next
    case False
    from "1.prems" False obtain b where pk: "peek data 0 = Some b"
      by (subst (asm) Checksum_loop.simps) (auto split: option.splits)
    from "1.prems" False pk have
      "Checksum_loop (drop 1 data) (len - 1) (check + ucast b) = Some r"
      by (subst (asm) Checksum_loop.simps) simp
    from "1.IH"[OF False pk this] have "0 \<le> len - 1" "len - 1 \<le> int (length (drop 1 data))"
      by auto
    moreover have "data \<noteq> []" using pk by (auto simp: peek_def)
    ultimately show ?thesis by (cases data) auto
  qed
qed

lemma Send_log:
  assumes "Send d st cmd retry timeout = Some (r, st1)" and "fTransport st = Some t"
  shows "\<exists>t1 new. fTransport st1 = Some t1 \<and> tSent t1 = tSent t @ new \<and>
           (\<not> RCX_ERROR r \<longrightarrow> (\<exists>rq. new = [rq] \<and> rqCmd rq = cmd))"
proof -
  from Send_frame[OF assms] obtain t1 where
    t1: "fTransport st1 = Some t1"
    and c: "(r = Inl kRCX_RequestError \<and> tSent t1 = tSent t) \<or>
            (\<exists>rq. tSent t1 = tSent t @ [rq] \<and> rqCmd rq = cmd)"
    by blast
  from c show ?thesis
  proof
    assume "r = Inl kRCX_RequestError \<and> tSent t1 = tSent t"
    then have "tSent t1 = tSent t @ []" "RCX_ERROR r" by (auto simp: RCX_ERROR_def)
    with t1 show ?thesis by blast
  next
    assume "\<exists>rq. tSent t1 = tSent t @ [rq] \<and> rqCmd rq = cmd"
    with t1 show ?thesis by blast
  qed
qed

lemma Sync_log:
  assumes "Sync d st = Some (r, st1)" and "fTransport st = Some t"
  shows "\<exists>t1 new. fTransport st1 = Some t1 \<and> tSent t1 = tSent t @ new"
proof (cases "fSynced st")
  case True
  then have "st1 = st" using assms by (auto simp: Sync_def)
  then show ?thesis using assms(2) by simp
next
  case False
  from assms(1) False obtain ra sa where
    a: "Send d st MakePing True (kDefaultTimeout d) = Some (ra, sa)"
    by (auto simp: Sync_def split: option.splits)
  from Send_log[OF a assms(2)] obtain ta na where
    fa: "fTransport sa = Some ta" "tSent ta = tSent t @ na" by blast
  show ?thesis
  proof (cases "RCX_ERROR ra")
    case True
    have "Sync d st = Some (ra, sa)" using False a True by (simp add: Sync_def)
    then show ?thesis using assms(1) fa by auto
  next
    case okA: False
    show ?thesis
    proof (cases "fTarget sa = kRCX_CMTarget")
      case True
      from assms(1) False a okA True obtain rb sb where
        b: "Send d sa MakeUnlockCM True (kDefaultTimeout d) = Some (rb, sb)"
        by (auto simp: Sync_def split: option.splits)
      from Send_log[OF b fa(1)] obtain tb nb where
        fb: "fTransport sb = Some tb" "tSent tb = tSent ta @ nb" by blast
      have "Sync d st = (if RCX_ERROR rb then Some (rb, sb) else Some (kRCX_OK, sb\<lparr>fSynced := True\<rparr>))"
        using False a okA True b by (simp add: Sync_def)
      then have "fTransport st1 = Some tb" using assms(1) fb(1)
        by (cases "RCX_ERROR rb") auto
      moreover have "tSent tb = tSent t @ (na @ nb)" using fa(2) fb(2) by simp
      ultimately show ?thesis by blast
    next
      case notCM: False
      show ?thesis
      proof (cases "fTarget sa = kRCX_ScoutTarget")
        case True
        from assms(1) False a okA notCM True obtain rb sb where
          b: "Send d sa MakeUnlock True (kDefaultTimeout d) = Some (rb, sb)"
          by (auto simp: Sync_def split: option.splits)
        from Send_log[OF b fa(1)] obtain tb nb where
          fb: "fTransport sb = Some tb" "tSent tb = tSent ta @ nb" by blast
        have ab: "tSent tb = tSent t @ (na @ nb)" using fa(2) fb(2) by simp
        show ?thesis
        proof (cases "RCX_ERROR rb")
          case True
          have "Sync d st = Some (rb, sb)"
            using False a okA notCM \<open>fTarget sa = kRCX_ScoutTarget\<close> b True by (simp add: Sync_def)
          then have "st1 = sb" using assms(1) by simp
          then show ?thesis using fb(1) ab by blast
        next
          case okB: False
          from assms(1) False a okA notCM True b okB obtain rc sc where
            c: "Send d sb (Set [0x47, 0x80]) True (kDefaultTimeout d) = Some (rc, sc)"
            by (auto simp: Sync_def split: option.splits)
          from Send_log[OF c fb(1)] obtain tc nc where
            fc: "fTransport sc = Some tc" "tSent tc = tSent tb @ nc" by blast
          have "Sync d st = (if RCX_ERROR rc then Some (rc, sc) else Some (kRCX_OK, sc\<lparr>fSynced := True\<rparr>))"
            using False a okA notCM True b okB c by (simp add: Sync_def)
          then have "fTransport st1 = Some tc" using assms(1) fc(1)
            by (cases "RCX_ERROR rc") auto
          moreover have "tSent tc = tSent t @ (na @ nb @ nc)" using ab fc(2) by simp
          ultimately show ?thesis by blast
        qed
      next
        case notScout: False
        have "Sync d st = Some (kRCX_OK, sa\<lparr>fSynced := True\<rparr>)"
          using False a okA notCM notScout by (simp add: Sync_def)
        then have "fTransport st1 = Some ta" using assms(1) fa(1) by auto
        then show ?thesis using fa(2) by blast
      qed
    qed
  qed
qed

lemma Download_loop_log:
  assumes "Download_loop d cb chunk st data remain seq = Some y"
  shows "\<forall>t. fTransport st = Some t \<longrightarrow>
           (\<exists>t' new. fTransport (snd y) = Some t' \<and> tSent t' = tSent t @ new)"
proof (rule Download_loop.raw_induct[OF _ assms, where P = "\<lambda>d cb chunk st data remain seq y.
         \<forall>t. fTransport st = Some t \<longrightarrow>
           (\<exists>t' new. fTransport (snd y) = Some t' \<and> tSent t' = tSent t @ new)"])
  fix loop :: "RCX_Defs \<Rightarrow> (int \<Rightarrow> int \<Rightarrow> int \<Rightarrow> bool) \<Rightarrow> int \<Rightarrow> RCX_Link \<Rightarrow> UByte list \<Rightarrow> int
      \<Rightarrow> UShort \<Rightarrow> (RCX_Result \<times> RCX_Link) option"
    and d :: RCX_Defs and cb :: "int \<Rightarrow> int \<Rightarrow> int \<Rightarrow> bool" and chunk :: int and st :: RCX_Link
    and data :: "UByte list" and remain :: int and seq :: UShort and y :: "RCX_Result \<times> RCX_Link"
  assume IH: "\<And>d cb chunk st data remain seq y.
      loop d cb chunk st data remain seq = Some y \<Longrightarrow>
      \<forall>t. fTransport st = Some t \<longrightarrow>
           (\<exists>t' new. fTransport (snd y) = Some t' \<and> tSent t' = tSent t @ new)"
  assume hyps: "(if 0 < remain then
        (let seq1 = (if remain \<le> chunk \<and> (\<not> gQuiet st \<or> gProgramMode st) then 0 else seq);
             n = (if remain \<le> chunk then remain else chunk)
         in case fTransport st of
              None \<Rightarrow> None
            | Some t \<Rightarrow>
                (case AdjustChunkSize (fMaxZeros st) (fMaxOnes st) n data (tComplementData t) of
                   None \<Rightarrow> None
                 | Some n' \<Rightarrow>
                     (case Send d st (MakeDownload seq1 data (of_int n')) True (fDownloadWaitTime st) of
                        None \<Rightarrow> None
                      | Some (result, st1) \<Rightarrow>
                          if RCX_ERROR result then Some (result, st1)
                          else if n' < 0 then None
                          else
                            (case IncrementProgress cb st1 n' of
                               (continue, st2) \<Rightarrow>
                                 if \<not> continue then Some (Inl kRCX_AbortError, st2)
                                 else loop d cb chunk st2 (drop (nat n') data)
                                        (remain - n') (seq1 + 1)))))
      else Some (kRCX_OK, st)) = Some y"
  show "\<forall>t. fTransport st = Some t \<longrightarrow>
           (\<exists>t' new. fTransport (snd y) = Some t' \<and> tSent t' = tSent t @ new)"
  proof (intro allI impI)
    fix t assume tr: "fTransport st = Some t"
    show "\<exists>t' new. fTransport (snd y) = Some t' \<and> tSent t' = tSent t @ new"
    proof (cases "0 < remain")
      case False
      with hyps have "y = (kRCX_OK, st)" by simp
      then show ?thesis using tr by simp
    next
      case True
      let ?n = "if remain \<le> chunk then remain else chunk"
      let ?seq1 = "if remain \<le> chunk \<and> (\<not> gQuiet st \<or> gProgramMode st) then 0 else seq"
      from hyps True tr obtain n' where
        adj: "AdjustChunkSize (fMaxZeros st) (fMaxOnes st) ?n data (tComplementData t) = Some n'"
        by (cases "AdjustChunkSize (fMaxZeros st) (fMaxOnes st) ?n data (tComplementData t)")
           (auto simp: Let_def)
      let ?cmd = "MakeDownload ?seq1 data (of_int n')"
      from hyps True tr adj obtain r1 st1 where
        snd: "Send d st ?cmd True (fDownloadWaitTime st) = Some (r1, st1)"
        by (cases "Send d st ?cmd True (fDownloadWaitTime st)") (auto simp: Let_def)
      from Send_log[OF snd tr] obtain t1 n1 where
        f1: "fTransport st1 = Some t1" "tSent t1 = tSent t @ n1" by blast
      show ?thesis
      proof (cases "RCX_ERROR r1")
        case True
        with hyps \<open>0 < remain\<close> tr adj snd have "y = (r1, st1)" by (simp add: Let_def)
        then show ?thesis using f1 by auto
      next
        case False
        obtain continue st2 where inc: "IncrementProgress cb st1 n' = (continue, st2)"
          by (cases "IncrementProgress cb st1 n'") auto
        from IncrementProgress_frame[OF inc] have f2: "fTransport st2 = Some t1"
          using f1(1) by simp
        show ?thesis
        proof (cases continue)
          case False
          with hyps \<open>0 < remain\<close> tr adj snd \<open>\<not> RCX_ERROR r1\<close> inc
          have "y = (Inl kRCX_AbortError, st2)" by (auto simp: Let_def split: if_splits)
          then show ?thesis using f2 f1(2) by auto
        next
          case True
          from hyps \<open>0 < remain\<close> tr adj snd \<open>\<not> RCX_ERROR r1\<close> inc True
          have rec: "loop d cb chunk st2 (drop (nat n') data) (remain - n') (?seq1 + 1) = Some y"
            by (auto simp: Let_def split: if_splits)
          from IH[OF rec] f2 obtain t' n2 where
            "fTransport (snd y) = Some t'" "tSent t' = tSent t1 @ n2" by blast
          then have "fTransport (snd y) = Some t' \<and> tSent t' = tSent t @ (n1 @ n2)"
            using f1(2) by simp
          then show ?thesis by blast
        qed
      qed
    qed
  qed
qed

lemma Download_log:
  assumes "Download d cb st data len chunk = Some (r, st')" and "fTransport st = Some t"
  shows "\<exists>t' new. fTransport st' = Some t' \<and> tSent t' = tSent t @ new"
  using Download_loop_log[of d cb chunk st data len 1 "(r, st')"] assms
  by (simp add: Download_def)

lemma FirmwareChecksum_value:
  assumes "FirmwareChecksum data len = Some check"
  shows "Checksum data (min len 0x4C00) = Some check \<and>
         sint check = sum_list (map uint (take (nat (min len 0x4C00)) data)) \<and>
         uint (ucast check :: UByte) + 256 * uint (ucast (signed_drop_bit 8 check) :: UByte)
           = sum_list (map uint (take (nat (min len 0x4C00)) data)) mod 2 ^ 16"
proof -
  let ?n = "min len 0x4C00"
  have n: "(if len < 0x4c00 then len else 0x4c00) = ?n" by simp
  from assms have c: "Checksum data ?n = Some check"
    unfolding FirmwareChecksum_def n .
  then have "Checksum_loop data ?n 0 = Some check" by (simp add: Checksum_def)
  from Checksum_loop_Some[OF this] have b: "0 \<le> ?n" "?n \<le> int (length data)" by auto
  have "?n \<le> 0x4c00" by simp
  from Checksum_value[OF b this] c
  have v: "sint check = sum_list (map uint (take (nat ?n) data))"
          "uint check = sum_list (map uint (take (nat ?n) data))"
    by simp_all
  have "uint (ucast check :: UByte) + 256 * uint (ucast (signed_drop_bit 8 check) :: UByte)
           = sum_list (map uint (take (nat ?n) data)) mod 2 ^ 16"
    using v(2) low_bytes[of check] by simp
  with c v(1) show ?thesis by simp
qed

lemma sampleNubTransfer_log:
  "\<exists>s st' t'. sampleOpened = Some (kRCX_OK, s) \<and>
     TransferFirmware sampleDefs (\<lambda>soFar total0 chunkSize. False) s
       [1, 2, 3, 4, 5, 6, 7, 8] 8 0x8000 False = Some (Inr 1, st') \<and>
     fTransport s = Some ((sampleTransport USBTowerPipe)\<lparr>tDevName := Some []\<rparr>) \<and>
     fTransport st' = Some t' \<and>
     map rqCmd (tSent t') =
       [MakePing, Set [0x65, 1, 3, 5, 7, 0xb], Set [0x75, of_int 0x8000, 0x80, 36, 0, 0],
        MakeDownload 0 [1, 2, 3, 4, 5, 6, 7, 8] 8, MakeUnlock]"
  by (simp add: sampleOpened_eval TransferFirmware_def Sync_def
      FirmwareChecksum_def Checksum_def BeginFirmwareCmd_def
      Download_def Download_loop.simps
      AdjustChunkSize_def IncrementProgress_def BeginProgress_def int32_def
      send_defs sample_defs kRCX_OK_def RCX_ERROR_def Let_def drop_bit_eq_div)

text \<open>
  C5: for every firmware payload, a \<open>TransferFirmware\<close> that returns without an error
  has handed to the transport, right after the command that deletes the firmware, a
  \<open>BeginFirmware\<close> command whose two checksum bytes are the low 16 bits, low byte first,
  of what \<open>Checksum\<close> returns on the first \<open>min(length, 0x4C00)\<close> bytes; that value
  is the additive sum of these bytes, which the 32-bit \<open>int\<close> holds without overflow.
  So the checksum passed on is the sum of the first \<open>min(length, 0x4C00)\<close> bytes modulo
  \<open>2^16\<close>, and for sizes up to \<open>0x4C00\<close> the sum of all the bytes modulo \<open>2^16\<close>.
\<close>

theorem C5_transfer_firmware_checksum:
  assumes run: "TransferFirmware d cb st data len start progress = Some (r, st')"
    and ok: "\<not> RCX_ERROR r" and tr: "fTransport st = Some t"
  shows "\<exists>t' pre rqd rq post check lo hi.
           fTransport st' = Some t' \<and> tSent t' = tSent t @ pre @ [rqd, rq] @ post \<and>
           rqCmd rqd = Set [of_int (kRCX_DeleteFirmware d), 1, 3, 5, 7, 0xb] \<and>
           rqCmd rq = Set [of_int (kRCX_BeginFirmwareOp d), of_int start,
                           of_int (drop_bit 8 start), lo, hi, 0] \<and>
           Checksum data (min len 0x4C00) = Some check \<and>
           sint check = sum_list (map uint (take (nat (min len 0x4C00)) data)) \<and>
           lo = ucast check \<and> hi = ucast (signed_drop_bit 8 check) \<and>
           uint lo + 256 * uint hi =
             sum_list (map uint (take (nat (min len 0x4C00)) data)) mod 2 ^ 16 \<and>
           (len \<le> 0x4C00 \<longrightarrow>
              uint lo + 256 * uint hi = sum_list (map uint (take (nat len) data)) mod 2 ^ 16)"
proof -
  from run obtain r1 s1 where y: "Sync d st = Some (r1, s1)"
    by (auto simp: TransferFirmware_def split: option.splits)
  from Sync_log[OF y tr] obtain t1 n1 where
    f1: "fTransport s1 = Some t1" "tSent t1 = tSent t @ n1" by blast
  have ok1: "\<not> RCX_ERROR r1"
  proof
    assume "RCX_ERROR r1"
    then have "TransferFirmware d cb st data len start progress = Some (r1, s1)"
      using y by (simp add: TransferFirmware_def)
    with run ok \<open>RCX_ERROR r1\<close> show False by simp
  qed
  let ?del = "Set [of_int (kRCX_DeleteFirmware d), 1, 3, 5, 7, 0xb]"
  from run y ok1 obtain r2 s2 where d2: "Send d s1 ?del True (kDefaultTimeout d) = Some (r2, s2)"
    by (auto simp: TransferFirmware_def split: option.splits)
  have ok2: "\<not> RCX_ERROR r2"
  proof
    assume "RCX_ERROR r2"
    then have "TransferFirmware d cb st data len start progress = Some (r2, s2)"
      using y ok1 d2 by (simp add: TransferFirmware_def)
    with run ok \<open>RCX_ERROR r2\<close> show False by simp
  qed
  from Send_log[OF d2 f1(1)] ok2 obtain t2 rqd where
    f2: "fTransport s2 = Some t2" "tSent t2 = tSent t1 @ [rqd]" "rqCmd rqd = ?del" by blast
  from run y ok1 d2 ok2 obtain check where ck: "FirmwareChecksum data len = Some check"
    by (auto simp: TransferFirmware_def split: option.splits)
  from run y ok1 d2 ok2 ck obtain r3 s3 where
    b3: "Send d s2 (BeginFirmwareCmd d start check) True (kDefaultTimeout d) = Some (r3, s3)"
    by (auto simp: TransferFirmware_def split: option.splits)
  have ok3: "\<not> RCX_ERROR r3"
  proof
    assume "RCX_ERROR r3"
    then have "TransferFirmware d cb st data len start progress = Some (r3, s3)"
      using y ok1 d2 ok2 ck b3 by (simp add: TransferFirmware_def)
    with run ok \<open>RCX_ERROR r3\<close> show False by simp
  qed
  from Send_log[OF b3 f2(1)] ok3 obtain t3 rq where
    f3: "fTransport s3 = Some t3" "tSent t3 = tSent t2 @ [rq]"
        "rqCmd rq = BeginFirmwareCmd d start check" by blast
  let ?s3 = "BeginProgress s3 (if progress then len else 0)"
  from run y ok1 d2 ok2 ck b3 ok3 obtain r4 s4 where
    d4: "Download d cb ?s3 data len (fRCXFirmwareChunkSize s3) = Some (r4, s4)"
    by (auto simp: TransferFirmware_def split: option.splits)
  have "fTransport ?s3 = Some t3" using f3(1) by (simp add: BeginProgress_def)
  from Download_log[OF d4 this] obtain t4 n4 where
    f4: "fTransport s4 = Some t4" "tSent t4 = tSent t3 @ n4" by blast
  have ok4: "\<not> RCX_ERROR r4"
  proof
    assume "RCX_ERROR r4"
    then have "TransferFirmware d cb st data len start progress = Some (r4, s4)"
      using y ok1 d2 ok2 ck b3 ok3 d4 by (simp add: TransferFirmware_def)
    with run ok \<open>RCX_ERROR r4\<close> show False by simp
  qed
  from run y ok1 d2 ok2 ck b3 ok3 d4 ok4 obtain r5 s5 where
    u5: "Send d s4 MakeUnlock False (kMaxTimeout d) = Some (r5, s5)"
    by (auto simp: TransferFirmware_def split: option.splits)
  from Send_log[OF u5 f4(1)] obtain t5 n5 where
    f5: "fTransport s5 = Some t5" "tSent t5 = tSent t4 @ n5" by blast
  from run y ok1 d2 ok2 ck b3 ok3 d4 ok4 u5 f5(1) have "st' = s5"
    by (auto simp: TransferFirmware_def split: if_splits)
  then have g1: "fTransport st' = Some t5" using f5(1) by simp
  have g2: "tSent t5 = tSent t @ n1 @ [rqd, rq] @ (n4 @ n5)"
    using f1(2) f2(2) f3(2) f4(2) f5(2) by simp
  let ?lo = "ucast check :: UByte" and ?hi = "ucast (signed_drop_bit 8 check) :: UByte"
  have g3: "rqCmd rq = Set [of_int (kRCX_BeginFirmwareOp d), of_int start,
                           of_int (drop_bit 8 start), ?lo, ?hi, 0]"
    using f3(3) by (simp add: BeginFirmwareCmd_def)
  note v = FirmwareChecksum_value[OF ck]
  have g4: "uint ?lo + 256 * uint ?hi =
             sum_list (map uint (take (nat (min len 0x4C00)) data)) mod 2 ^ 16"
    using v by blast
  have g5: "len \<le> 0x4C00 \<longrightarrow>
              uint ?lo + 256 * uint ?hi = sum_list (map uint (take (nat len) data)) mod 2 ^ 16"
    using g4 by (simp add: min_def)
  have g6: "Checksum data (min len 0x4C00) = Some check"
           "sint check = sum_list (map uint (take (nat (min len 0x4C00)) data))"
    using v by blast+
  show ?thesis
    apply (rule exI[of _ t5], rule exI[of _ n1], rule exI[of _ rqd], rule exI[of _ rq])
    apply (rule exI[of _ "n4 @ n5"], rule exI[of _ check], rule exI[of _ ?lo], rule exI[of _ ?hi])
    using g1 g2 f2(3) g3 g4 g5 g6 by blast
qed

theorem C5_transfer_firmware_checksum_witness:
  "\<exists>s t st' t' pre rqd rq post check lo hi.
     sampleOpened = Some (kRCX_OK, s) \<and> fTransport s = Some t \<and> tSent t = [] \<and>
     TransferFirmware sampleDefs (\<lambda>soFar total0 chunkSize. False) s
       [1, 2, 3, 4, 5, 6, 7, 8] 8 0x8000 False = Some (Inr 1, st') \<and>
     \<not> RCX_ERROR (Inr 1) \<and> fTransport st' = Some t' \<and>
     map rqCmd (tSent t') =
       [MakePing, Set [0x65, 1, 3, 5, 7, 0xb], Set [0x75, of_int 0x8000, 0x80, 36, 0, 0],
        MakeDownload 0 [1, 2, 3, 4, 5, 6, 7, 8] 8, MakeUnlock] \<and>
     tSent t' = pre @ [rqd, rq] @ post \<and>
     rqCmd rqd = Set [0x65, 1, 3, 5, 7, 0xb] \<and>
     rqCmd rq = Set [0x75, of_int 0x8000, 0x80, lo, hi, 0] \<and>
     Checksum [1, 2, 3, 4, 5, 6, 7, 8] 8 = Some check \<and> sint check = 36 \<and>
     lo = ucast check \<and> hi = ucast (signed_drop_bit 8 check) \<and>
     uint lo + 256 * uint hi = 36"
proof -
  let ?cb = "\<lambda>(soFar::int) (total0::int) (chunkSize::int). False"
  let ?data = "[1, 2, 3, 4, 5, 6, 7, 8] :: UByte list"
  from sampleNubTransfer_log obtain s st' t' where
    a: "sampleOpened = Some (kRCX_OK, s)"
       "TransferFirmware sampleDefs ?cb s ?data 8 0x8000 False = Some (Inr 1, st')"
       "fTransport s = Some ((sampleTransport USBTowerPipe)\<lparr>tDevName := Some []\<rparr>)"
       "fTransport st' = Some t'"
       "map rqCmd (tSent t') =
          [MakePing, Set [0x65, 1, 3, 5, 7, 0xb], Set [0x75, of_int 0x8000, 0x80, 36, 0, 0],
           MakeDownload 0 ?data 8, MakeUnlock]"
    by (elim exE conjE) (rule that)
  let ?t = "(sampleTransport USBTowerPipe)\<lparr>tDevName := Some []\<rparr>"
  have e: "tSent ?t = []" by (simp add: sampleTransport_def)
  have ok: "\<not> RCX_ERROR (Inr 1)" by (simp add: RCX_ERROR_def)
  from C5_transfer_firmware_checksum[OF a(2) ok a(3)] a(4)
  obtain pre rqd rq post check lo hi where
    c: "tSent t' = tSent ?t @ pre @ [rqd, rq] @ post"
       "rqCmd rqd = Set [of_int (kRCX_DeleteFirmware sampleDefs), 1, 3, 5, 7, 0xb]"
       "rqCmd rq = Set [of_int (kRCX_BeginFirmwareOp sampleDefs), of_int 0x8000,
                        of_int (drop_bit 8 0x8000), lo, hi, 0]"
       "uint lo + 256 * uint hi =
             sum_list (map uint (take (nat (min 8 0x4C00)) ?data)) mod 2 ^ 16"
       "Checksum ?data (min 8 0x4C00) = Some check"
       "sint check = sum_list (map uint (take (nat (min 8 0x4C00)) ?data))"
       "lo = ucast check" "hi = ucast (signed_drop_bit 8 check)"
    by auto
  have g1: "tSent t' = pre @ [rqd, rq] @ post" using c(1) e by simp
  have g2: "rqCmd rqd = Set [0x65, 1, 3, 5, 7, 0xb]" using c(2) by (simp add: sampleDefs_def)
  have g3: "rqCmd rq = Set [0x75, of_int 0x8000, 0x80, lo, hi, 0]"
    using c(3) by (simp add: sampleDefs_def drop_bit_eq_div)
  have g4: "uint lo + 256 * uint hi = 36" using c(4) by simp
  have g5: "Checksum ?data 8 = Some check" using c(5) by simp
  have g6: "sint check = 36" using c(6) by simp
  show ?thesis
    apply (rule exI[of _ s])
    apply (rule exI[of _ ?t])
    apply (rule exI[of _ st'])
    apply (rule exI[of _ t'])
    apply (rule exI[of _ pre])
    apply (rule exI[of _ rqd])
    apply (rule exI[of _ rq])
    apply (rule exI[of _ post])
    apply (rule exI[of _ check])
    apply (rule exI[of _ lo])
    apply (rule exI[of _ hi])
    apply (intro conjI)
              apply (rule a(1))
             apply (rule a(3))
            apply (rule e)
           apply (rule a(2))
          apply (rule ok)
         apply (rule a(4))
        apply (rule a(5))
       apply (rule g1)
      apply (rule g2)
         apply (rule g3)
        apply (rule g5)
       apply (rule g6)
      apply (rule c(7))
     apply (rule c(8))
    apply (rule g4)
    done
qed

end
